theory Spec2Isabelle
  imports Complex_Main "HOL-Library.Multiset" "HOL-Library.Word"
begin

section \<open>Bytes and ASCII text\<close>

text \<open>
  A Python \<open>bytes\<close> value is a list of 8-bit characters.  The text that the scanner,
  the title loop and the classifier work on comes out of
  \<open>decode('ascii', errors='ignore')\<close>, so its code points are below 128; on such
  text \<open>str.upper\<close>, \<open>str.isdigit\<close>, \<open>str.isprintable\<close> and \<open>str.strip\<close> are the
  ASCII functions written out here, on the type \<open>string\<close>.
\<close>

type_synonym bytes = "char list"

definition is_ascii :: "char \<Rightarrow> bool" where
  "is_ascii c = (of_char c < (128::nat))"

definition ascii_lowercase :: string where
  "ascii_lowercase = ''abcdefghijklmnopqrstuvwxyz''"

definition ascii_uppercase :: string where
  "ascii_uppercase = ''ABCDEFGHIJKLMNOPQRSTUVWXYZ''"

definition upper_char :: "char \<Rightarrow> char" where
  "upper_char c = (case map_of (zip ascii_lowercase ascii_uppercase) c of Some u \<Rightarrow> u | None \<Rightarrow> c)"

definition lower_char :: "char \<Rightarrow> char" where
  "lower_char c = (case map_of (zip ascii_uppercase ascii_lowercase) c of Some l \<Rightarrow> l | None \<Rightarrow> c)"

definition upper :: "string \<Rightarrow> string" where
  "upper s = map upper_char s"

definition isdigit :: "char \<Rightarrow> bool" where
  "isdigit c = (c \<in> set ''0123456789'')"

definition isprintable :: "char \<Rightarrow> bool" where
  "isprintable c = (32 \<le> (of_char c :: nat) \<and> (of_char c :: nat) \<le> 126)"

definition isspace :: "char \<Rightarrow> bool" where
  "isspace c = ((of_char c :: nat) \<in> {9, 10, 11, 12, 13, 28, 29, 30, 31, 32})"

definition strip :: "string \<Rightarrow> string" where
  "strip s = rev (dropWhile isspace (rev (dropWhile isspace s)))"

definition startswith :: "string \<Rightarrow> string \<Rightarrow> bool" where
  "startswith s pre = (take (length pre) s = pre)"

definition endswith :: "string \<Rightarrow> string \<Rightarrow> bool" where
  "endswith s suf = (length suf \<le> length s \<and> drop (length s - length suf) s = suf)"

text \<open>\<open>data.decode('ascii', errors='ignore')\<close>: a byte of 128 or more is dropped,
  every other byte is kept as the character of the same code.\<close>

definition decode_ascii_ignore :: "bytes \<Rightarrow> string" where
  "decode_ascii_ignore data = filter is_ascii data"

text \<open>\<open>text.split(sep)\<close> for a one-character separator: the result is never empty.\<close>

fun split_char :: "char \<Rightarrow> string \<Rightarrow> string list" where
  "split_char sep [] = [[]]"
| "split_char sep (c # cs) =
     (if c = sep then [] # split_char sep cs
      else (case split_char sep cs of
              [] \<Rightarrow> [[c]]
            | l # ls \<Rightarrow> (c # l) # ls))"

section \<open>The regular expressions of the pattern catalog\<close>

text \<open>
  The catalog needs four constructs of Python's \<open>re\<close>: a literal character, a
  character range \<open>[a-z]\<close>, the greedy repetition \<open>\d+\<close>, and the end anchor \<open>$\<close>
  of the classifier.  The flag \<open>ic\<close> is \<open>re.IGNORECASE\<close>.
\<close>

datatype atom = Lit char | Range char char | Digits | EndOfString

definition in_range :: "char \<Rightarrow> char \<Rightarrow> char \<Rightarrow> bool" where
  "in_range lo hi x = ((of_char lo :: nat) \<le> of_char x \<and> (of_char x :: nat) \<le> of_char hi)"

definition lit_matches :: "bool \<Rightarrow> char \<Rightarrow> char \<Rightarrow> bool" where
  "lit_matches ic c x = (if ic then lower_char x = lower_char c else x = c)"

definition range_matches :: "bool \<Rightarrow> char \<Rightarrow> char \<Rightarrow> char \<Rightarrow> bool" where
  "range_matches ic lo hi x =
     (if ic then in_range lo hi (lower_char x) \<or> in_range lo hi (upper_char x)
      else in_range lo hi x)"

text \<open>
  \<open>match_here ic pat s\<close> matches \<open>pat\<close> at the start of \<open>s\<close> and returns the length
  of the match.  \<open>\d+\<close> is greedy with backtracking: one more digit is tried first, the
  rest of the pattern after the digits read so far second.
\<close>

fun match_here :: "bool \<Rightarrow> atom list \<Rightarrow> string \<Rightarrow> nat option" where
  "match_here ic [] s = Some 0"
| "match_here ic (EndOfString # ps) s =
     (if s = [] \<or> s = [CHR 0x0A] then match_here ic ps s else None)"
| "match_here ic (Lit c # ps) [] = None"
| "match_here ic (Lit c # ps) (x # xs) =
     (if lit_matches ic c x then map_option Suc (match_here ic ps xs) else None)"
| "match_here ic (Range lo hi # ps) [] = None"
| "match_here ic (Range lo hi # ps) (x # xs) =
     (if range_matches ic lo hi x then map_option Suc (match_here ic ps xs) else None)"
| "match_here ic (Digits # ps) [] = None"
| "match_here ic (Digits # ps) (x # xs) =
     (if isdigit x
      then (case match_here ic (Digits # ps) xs of
              Some n \<Rightarrow> Some (Suc n)
            | None \<Rightarrow> map_option Suc (match_here ic ps xs))
      else None)"

definition lits :: "string \<Rightarrow> atom list" where
  "lits s = map Lit s"

text \<open>
  \<open>re.finditer(pattern, text, re.IGNORECASE)\<close>, yielding for every match the pair
  \<open>(match.group(1).upper(), match.start())\<close>: the leftmost match is searched from the
  current position, and the search resumes at the end of the match (\<open>skip\<close> counts the
  characters of the last match still to pass).  No pattern of the catalog matches the
  empty string, so nothing is tried at the end of the text.
\<close>

fun finditer_from :: "atom list \<Rightarrow> nat \<Rightarrow> nat \<Rightarrow> string \<Rightarrow> (string \<times> nat) list" where
  "finditer_from pat pos skip [] = []"
| "finditer_from pat pos skip (c # cs) =
     (if 0 < skip then finditer_from pat (Suc pos) (skip - 1) cs
      else (case match_here True pat (c # cs) of
              None \<Rightarrow> finditer_from pat (Suc pos) 0 cs
            | Some n \<Rightarrow> (upper (take n (c # cs)), pos) # finditer_from pat (Suc pos) (n - 1) cs))"

definition finditer :: "atom list \<Rightarrow> string \<Rightarrow> (string \<times> nat) list" where
  "finditer pat text = finditer_from pat 0 0 text"

section \<open>The extractor\<close>

definition audio_patterns :: "atom list list" where
  "audio_patterns =
     [Digits # lits ''rhyth.wav'',
      Range (CHR ''a'') (CHR ''z'') # lits ''rhyth.wav'',
      Lit (CHR ''!'') # Digits # lits ''rhyt.wav'',
      Lit (CHR ''x'') # Digits # lits ''rhyt.wav'',
      lits ''nosound.wav'',
      Digits # lits ''RHYTH.WAV'',
      Range (CHR ''A'') (CHR ''Z'') # lits ''RHYTH.WAV'',
      Lit (CHR ''!'') # Digits # lits ''RHYT.WAV'',
      Lit (CHR ''X'') # Digits # lits ''RHYT.WAV'',
      lits ''NOSOUND.WAV'']"

text \<open>The two nested \<open>for\<close> loops that fill \<open>all_matches\<close>.\<close>

definition all_matches :: "string \<Rightarrow> (string \<times> nat) list" where
  "all_matches text_data = concat (map (\<lambda>pattern. finditer pattern text_data) audio_patterns)"

text \<open>The loop over the sorted matches, with the set \<open>seen\<close>; the entries appended to
  \<open>audio_sequence\<close> are returned in the order of the appends.\<close>

fun remove_duplicates :: "string set \<Rightarrow> (string \<times> nat) list \<Rightarrow> (string \<times> nat) list" where
  "remove_duplicates seen [] = []"
| "remove_duplicates seen ((filename, position) # ms) =
     (if filename \<notin> seen \<and> 4 < length filename
      then (filename, position) # remove_duplicates (insert filename seen) ms
      else remove_duplicates seen ms)"

text \<open>\<open>list.sort(key=lambda x: x[1])\<close> is stable, as \<open>sort_key\<close> is.  Nothing in the
  \<open>try\<close> block of the function raises (the decoder ignores what it cannot decode), so
  its \<open>except\<close> clause, the only place where the function prints, is not entered.\<close>

definition extract_audio_sequence_from_data :: "bytes \<Rightarrow> (string \<times> nat) list" where
  "extract_audio_sequence_from_data data =
     remove_duplicates {} (sort_key snd (all_matches (decode_ascii_ignore data)))"

definition classify_audio_file :: "string \<Rightarrow> string" where
  "classify_audio_file filename =
     (let filename_upper = upper filename in
      if filename_upper = ''NOSOUND.WAV'' then ''silence''
      else if startswith filename_upper ''!'' then ''system''
      else if startswith filename_upper ''X'' then ''special''
      else if match_here False (Range (CHR ''A'') (CHR ''Z'') # lits ''RHYTH.WAV'' @ [EndOfString])
                filename_upper \<noteq> None then ''letter_rhythm''
      else if match_here False (Digits # lits ''RHYTH.WAV'' @ [EndOfString])
                filename_upper \<noteq> None then ''numbered_rhythm''
      else ''unknown'')"

section \<open>Text that is not ASCII, and the availability resolver\<close>

text \<open>
  A Python \<open>str\<close> in general is a list of code points.  File names and paths come from
  the file system and the command line and need not be ASCII; \<open>os.listdir\<close> even
  returns lone surrogates (\<open>U+DC80\<close> to \<open>U+DCFF\<close>) for the bytes of a name that is not
  valid UTF-8.  \<open>unicode_of\<close> embeds ASCII text.
\<close>

type_synonym unicode = "nat list"

definition unicode_of :: "string \<Rightarrow> unicode" where
  "unicode_of s = map of_char s"

text \<open>
  \<open>str.isdigit\<close> and \<open>str.upper\<close> follow the Unicode character database of the
  interpreter.  Their values on ASCII are written out; the database for the code points
  from 128 on is a parameter: which of them are digits, and the uppercase mapping of
  each, a list because one character can become several (\<open>'\<ss>'.upper() == 'SS'\<close>).
\<close>

record unicode_db =
  db_isdigit :: "nat \<Rightarrow> bool"
  db_upper :: "nat \<Rightarrow> nat list"

definition str_isdigit :: "unicode_db \<Rightarrow> nat \<Rightarrow> bool" where
  "str_isdigit db c = (if c < 128 then 48 \<le> c \<and> c \<le> 57 else db_isdigit db c)"

definition upper_code :: "unicode_db \<Rightarrow> nat \<Rightarrow> nat list" where
  "upper_code db c =
     (if c < 128 then [if 97 \<le> c \<and> c \<le> 122 then c - 32 else c] else db_upper db c)"

definition str_upper :: "unicode_db \<Rightarrow> unicode \<Rightarrow> unicode" where
  "str_upper db s = concat (map (upper_code db) s)"

text \<open>
  The database of Python on the code points 128 to 255 (Latin-1 supplement): the
  superscripts \<open>U+00B2\<close>, \<open>U+00B3\<close> and \<open>U+00B9\<close> are digits; the lowercase letters
  \<open>U+00E0\<close> to \<open>U+00FE\<close> without the division sign \<open>U+00F7\<close> have their uppercase 32
  below, the micro sign goes to \<open>U+039C\<close>, the sharp s to \<open>SS\<close> and \<open>U+00FF\<close> to
  \<open>U+0178\<close>.  From 256 on this table has no digit and no letter.
\<close>

definition latin1_db :: unicode_db where
  "latin1_db =
     \<lparr>db_isdigit = (\<lambda>c. c = 178 \<or> c = 179 \<or> c = 185),
      db_upper = (\<lambda>c. if c = 181 then [924]
                       else if c = 223 then [83, 83]
                       else if c = 255 then [376]
                       else if 224 \<le> c \<and> c \<le> 254 \<and> c \<noteq> 247 then [c - 32]
                       else [c])\<rparr>"

text \<open>\<open>_check_audio_file_exists\<close> of the extractor: the inventory is a set of names.\<close>

definition check_audio_file_exists ::
    "unicode_db \<Rightarrow> unicode set \<Rightarrow> unicode \<Rightarrow> bool \<times> unicode option" where
  "check_audio_file_exists db available_audio_files filename =
     (let filename_upper = str_upper db filename in
      if filename_upper \<in> available_audio_files then (True, Some filename_upper)
      else if 4 < length filename \<and> str_isdigit db (hd filename)
           then (let alt_filename = str_upper db (tl filename) in
                 if alt_filename \<in> available_audio_files then (True, Some alt_filename)
                 else (False, None))
      else (False, None))"

text \<open>\<open>_check_audio_file_exists\<close> of the report generator: the inventory is a
  dictionary from names to metadata, which is returned as well.\<close>

record metadata =
  duration :: real
  size_kb :: nat

definition check_audio_file_exists_info ::
    "unicode_db \<Rightarrow> (unicode \<rightharpoonup> metadata) \<Rightarrow> unicode \<Rightarrow> bool \<times> unicode option \<times> metadata" where
  "check_audio_file_exists_info db audio_file_info filename =
     (let filename_upper = str_upper db filename in
      case audio_file_info filename_upper of
        Some m \<Rightarrow> (True, Some filename_upper, m)
      | None \<Rightarrow>
          (if 4 < length filename \<and> str_isdigit db (hd filename)
           then (let alt_filename = str_upper db (tl filename) in
                 case audio_file_info alt_filename of
                   Some m \<Rightarrow> (True, Some alt_filename, m)
                 | None \<Rightarrow> (False, None, \<lparr>duration = 0, size_kb = 0\<rparr>))
           else (False, None, \<lparr>duration = 0, size_kb = 0\<rparr>)))"

section \<open>The level parser\<close>

record ELVAudioInfo =
  filename :: string
  file_type :: string
  exists_in_rloops :: bool
  sequence_position :: nat
  binary_offset :: nat
  alternative_found :: "unicode option"

record ELVFileInfo =
  elv_filename :: unicode
  filepath :: unicode
  file_size :: nat
  elvd_version :: nat
  level_title :: "string option"
  audio_files :: "ELVAudioInfo list"
  audio_count :: nat
  parse_success :: bool
  error_message :: "unicode option"
  analysis_timestamp :: unicode

text \<open>
  What \<open>parse_elv_file\<close> asks of its environment: whether the path exists, the size of
  the file, its contents, and the standard output, to which it prints its progress.
  \<open>os.path.getsize\<close>, \<open>open\<close>, \<open>read\<close> and \<open>print\<close> can raise; an exception is the
  left summand.  \<open>print\<close> raises \<open>UnicodeEncodeError\<close> when the encoding of the
  standard output has no bytes for a character of the line.
\<close>

datatype exn = OSError unicode | ValueError unicode | UnicodeEncodeError unicode

fun str_exn :: "exn \<Rightarrow> unicode" where
  "str_exn (OSError msg) = msg"
| "str_exn (ValueError msg) = msg"
| "str_exn (UnicodeEncodeError msg) = msg"

record os_world =
  path_exists :: "unicode \<Rightarrow> bool"
  getsize :: "unicode \<Rightarrow> exn + nat"
  read_file :: "unicode \<Rightarrow> exn + bytes"
  print_line :: "unicode \<Rightarrow> exn + unit"

text \<open>Two standard outputs, with the error handler \<open>strict\<close> that \<open>sys.stdout\<close> has
  by default: UTF-8, which encodes every code point but the surrogates, and Latin-1,
  which encodes the code points below 256.  The message of the exception is cut down
  to the reason it gives.\<close>

definition utf8_stdout :: "unicode \<Rightarrow> exn + unit" where
  "utf8_stdout line =
     (if list_ex (\<lambda>c. 0xD800 \<le> c \<and> c \<le> 0xDFFF) line
      then Inl (UnicodeEncodeError (unicode_of ''surrogates not allowed''))
      else Inr ())"

definition latin1_stdout :: "unicode \<Rightarrow> exn + unit" where
  "latin1_stdout line =
     (if list_ex (\<lambda>c. 256 \<le> c) line
      then Inl (UnicodeEncodeError (unicode_of ''ordinal not in range(256)''))
      else Inr ())"

text \<open>Several \<open>print\<close> calls in a row: the first exception ends them.\<close>

fun print_all :: "os_world \<Rightarrow> unicode list \<Rightarrow> exn + unit" where
  "print_all world [] = Inr ()"
| "print_all world (line # lines) =
     (case print_line world line of
        Inl e \<Rightarrow> Inl e
      | Inr u \<Rightarrow> print_all world lines)"

definition basename :: "unicode \<Rightarrow> unicode" where
  "basename path = rev (takeWhile (\<lambda>c. c \<noteq> 47) (rev path))"

text \<open>\<open>str(n)\<close> for a natural number, \<open>s.rjust(width)\<close> as in the format \<open>{i+1:2d}\<close>, and
  \<open>sep.join(parts)\<close>.\<close>

function str_nat :: "nat \<Rightarrow> unicode" where
  "str_nat n = (if n < 10 then [48 + n] else str_nat (n div 10) @ [48 + n mod 10])"
  by pat_completeness auto
termination
  by (relation "measure id") auto

declare str_nat.simps [simp del]

definition rjust :: "nat \<Rightarrow> unicode \<Rightarrow> unicode" where
  "rjust width s = replicate (width - length s) 32 @ s"

fun join :: "unicode \<Rightarrow> unicode list \<Rightarrow> unicode" where
  "join sep [] = []"
| "join sep [s] = s"
| "join sep (s # t # rest) = s @ sep @ join sep (t # rest)"

text \<open>\<open>struct.unpack('<H', version_data[:2])[0]\<close> on bytes 4 and 5 of the file.\<close>

definition unpack_u16_le :: "bytes \<Rightarrow> nat" where
  "unpack_u16_le b = of_char (b ! 0) + 256 * of_char (b ! 1)"

text \<open>The title loop: the first line whose cleaned text passes the test ends the loop
  (\<open>break\<close>); with no such line \<open>level_title\<close> stays \<open>None\<close>.\<close>

fun title_loop :: "string list \<Rightarrow> string option" where
  "title_loop [] = None"
| "title_loop (line # lines) =
     (let clean_line = strip (filter isprintable line) in
      if 10 < length clean_line \<and> \<not> endswith clean_line ''.lbm''
      then Some (take 50 clean_line)
      else title_loop lines)"

definition extract_level_title :: "bytes \<Rightarrow> string option" where
  "extract_level_title file_data =
     (let text_data = decode_ascii_ignore (drop 8 file_data);
          lines = split_char (CHR 0x00) text_data
      in title_loop lines)"

text \<open>The loop \<open>for sequence_pos, (audio_filename, binary_offset) in enumerate(audio_sequence)\<close>.
  The names of the sequence are ASCII text out of the scanner.\<close>

fun process_audio_files ::
    "unicode_db \<Rightarrow> unicode set \<Rightarrow> nat \<Rightarrow> (string \<times> nat) list \<Rightarrow> ELVAudioInfo list" where
  "process_audio_files db available sequence_pos [] = []"
| "process_audio_files db available sequence_pos ((audio_filename, offset) # rest) =
     (let (exists, alternative) = check_audio_file_exists db available (unicode_of audio_filename);
          ftype = classify_audio_file audio_filename;
          audio_info = \<lparr>filename = audio_filename,
                        file_type = ftype,
                        exists_in_rloops = exists,
                        sequence_position = sequence_pos,
                        binary_offset = offset,
                        alternative_found =
                          (if alternative \<noteq> Some (str_upper db (unicode_of audio_filename))
                           then alternative else None)\<rparr>
      in audio_info # process_audio_files db available (Suc sequence_pos) rest)"

text \<open>The dictionary \<open>type_counts\<close>, in the order in which its keys were inserted.\<close>

definition count_type :: "(string \<times> nat) list \<Rightarrow> string \<Rightarrow> (string \<times> nat) list" where
  "count_type type_counts t =
     (case map_of type_counts t of
        None \<Rightarrow> type_counts @ [(t, 1)]
      | Some n \<Rightarrow> map (\<lambda>(k, v). if k = t then (k, n + 1) else (k, v)) type_counts)"

text \<open>The lines that \<open>parse_elv_file\<close> prints, each as the \<open>print\<close> call builds it.\<close>

definition parsing_line :: "unicode \<Rightarrow> unicode" where
  "parsing_line name = [10, 0x1F50D] @ unicode_of '' Parsing: '' @ name"

definition version_line :: "nat \<Rightarrow> unicode" where
  "version_line version = unicode_of ''  '' @ [0x2713] @ unicode_of '' ELVD version '' @ str_nat version"

definition found_line :: "nat \<Rightarrow> unicode" where
  "found_line n =
     unicode_of ''  '' @ [0x2713] @ unicode_of '' Found '' @ str_nat n
       @ unicode_of '' audio files in sequence order''"

definition error_line :: "exn \<Rightarrow> unicode" where
  "error_line e = unicode_of ''  '' @ [0x274C] @ unicode_of '' Error: '' @ str_exn e"

text \<open>The lines of the block \<open>if file_info.audio_count > 0\<close>: the heading, the first five
  names, the number of the others, the types and the availability.\<close>

definition report_lines :: "ELVFileInfo \<Rightarrow> unicode list" where
  "report_lines file_info =
     (let files = audio_files file_info;
          type_counts = foldl count_type [] (map file_type files);
          existing_count = length (filter exists_in_rloops files);
          type_summary = join (unicode_of '', '')
                           (map (\<lambda>(t, n). str_nat n @ unicode_of '' '' @ unicode_of t) type_counts)
      in [unicode_of ''  '' @ [0x1F3B5] @ unicode_of '' Audio sequence:'']
         @ map (\<lambda>(i, audio). unicode_of ''    '' @ rjust 2 (str_nat (i + 1)) @ unicode_of ''. ''
                                @ unicode_of (filename audio))
               (enumerate 0 (take 5 files))
         @ (if 5 < length files
            then [unicode_of ''    ... and '' @ str_nat (length files - 5) @ unicode_of '' more'']
            else [])
         @ [unicode_of ''    '' @ [0x1F4CA] @ unicode_of '' Types: '' @ type_summary,
            unicode_of ''    '' @ [0x2705] @ unicode_of '' Available: '' @ str_nat existing_count
              @ unicode_of '', '' @ [0x274C] @ unicode_of '' Missing: ''
              @ str_nat (audio_count file_info - existing_count)])"

text \<open>
  The \<open>try\<close> block of \<open>parse_elv_file\<close>, on the record built before it.  It ends with
  the record to return, or with an exception and the record as it is when the exception
  is raised (\<open>parse_success\<close> is set before the last lines are printed).
\<close>

definition try_block ::
    "os_world \<Rightarrow> unicode_db \<Rightarrow> unicode set \<Rightarrow> unicode \<Rightarrow> ELVFileInfo
       \<Rightarrow> (exn \<times> ELVFileInfo) + ELVFileInfo" where
  "try_block world db available path file_info =
     (case getsize world path of
        Inl e \<Rightarrow> Inl (e, file_info)
      | Inr sz \<Rightarrow>
         (let file_info = file_info\<lparr>file_size := sz\<rparr> in
          case read_file world path of
            Inl e \<Rightarrow> Inl (e, file_info)
          | Inr file_data \<Rightarrow>
             (if length file_data < 8 \<or> take 4 file_data \<noteq> ''ELVD''
              then Inr (file_info\<lparr>error_message := Some (unicode_of ''Invalid ELVD header'')\<rparr>)
              else (let version_data = take 4 (drop 4 file_data);
                        file_info = file_info\<lparr>elvd_version := unpack_u16_le (take 2 version_data)\<rparr>
                    in case print_line world (version_line (elvd_version file_info)) of
                         Inl e \<Rightarrow> Inl (e, file_info)
                       | Inr u \<Rightarrow>
                          (let file_info = file_info\<lparr>level_title := extract_level_title file_data\<rparr>;
                               audio_sequence = extract_audio_sequence_from_data file_data;
                               file_info = file_info\<lparr>audio_files :=
                                             process_audio_files db available 0 audio_sequence\<rparr>;
                               file_info = file_info\<lparr>audio_count := length (audio_files file_info)\<rparr>;
                               file_info = file_info\<lparr>parse_success := True\<rparr>
                           in case print_line world (found_line (audio_count file_info)) of
                                Inl e \<Rightarrow> Inl (e, file_info)
                              | Inr u \<Rightarrow>
                                 (if 0 < audio_count file_info
                                  then (case print_all world (report_lines file_info) of
                                          Inl e \<Rightarrow> Inl (e, file_info)
                                        | Inr u \<Rightarrow> Inr file_info)
                                  else Inr file_info))))))"

text \<open>
  \<open>parse_elv_file\<close>.  The first line is printed before the \<open>try\<close> block, so its
  exception leaves the function.  The \<open>except Exception\<close> clause stores the message of
  an exception of the \<open>try\<close> block in the record and prints it; an exception of that
  \<open>print\<close> leaves the function as well.  The timestamp is taken from the clock by the
  caller.
\<close>

definition parse_elv_file ::
    "os_world \<Rightarrow> unicode_db \<Rightarrow> unicode set \<Rightarrow> unicode \<Rightarrow> unicode \<Rightarrow> exn + ELVFileInfo" where
  "parse_elv_file world db available now path =
     (let name = basename path in
      case print_line world (parsing_line name) of
        Inl e \<Rightarrow> Inl e
      | Inr u \<Rightarrow>
         (let file_info = \<lparr>elv_filename = name, filepath = path, file_size = 0,
                           elvd_version = 0, level_title = None, audio_files = [],
                           audio_count = 0, parse_success = False, error_message = None,
                           analysis_timestamp = now\<rparr>
          in if \<not> path_exists world path
             then Inr (file_info\<lparr>error_message := Some (unicode_of ''File not found: '' @ path)\<rparr>)
             else (case try_block world db available path file_info of
                     Inr file_info \<Rightarrow> Inr file_info
                   | Inl (e, file_info) \<Rightarrow>
                      (let file_info = file_info\<lparr>error_message :=
                                          Some (unicode_of ''Parse error: '' @ str_exn e)\<rparr>
                       in case print_line world (error_line e) of
                            Inl e' \<Rightarrow> Inl e'
                          | Inr u \<Rightarrow> Inr file_info))))"

section \<open>The music generator\<close>

text \<open>
  Samples are real numbers.  The level record is the JSON dictionary written by the
  extractor; \<open>dict.get\<close> is a lookup in an optional field.
\<close>

record audio_entry =
  entry_filename :: string
  entry_file_type :: "string option"
  entry_sequence_position :: "int option"

record level_info =
  level_filename :: string
  level_audio_count :: int
  level_audio_files :: "audio_entry list"

definition get_level_info :: "level_info list option \<Rightarrow> string \<Rightarrow> level_info option" where
  "get_level_info files name =
     (case files of
        None \<Rightarrow> None
      | Some fs \<Rightarrow> find (\<lambda>file_info. upper (level_filename file_info) = upper name) fs)"

text \<open>The key of the sort: \<open>x.get('sequence_position', 0)\<close>.\<close>

definition sequence_key :: "audio_entry \<Rightarrow> int" where
  "sequence_key x = (case entry_sequence_position x of Some p \<Rightarrow> p | None \<Rightarrow> 0)"

text \<open>The loading loop; \<open>load\<close> is \<open>load_audio_file\<close>, which returns \<open>None\<close> for a
  file it cannot read.  Of a clip only the name and the samples are used later.\<close>

fun load_clips :: "(string \<Rightarrow> real list option) \<Rightarrow> audio_entry list \<Rightarrow> (string \<times> real list) list" where
  "load_clips load [] = []"
| "load_clips load (audio_info # rest) =
     (if entry_file_type audio_info = Some ''silence'' then load_clips load rest
      else (case load (entry_filename audio_info) of
              Some audio_data \<Rightarrow> (entry_filename audio_info, audio_data) # load_clips load rest
            | None \<Rightarrow> load_clips load rest))"

definition target_sample_rate :: nat where
  "target_sample_rate = 44100"

text \<open>Python's \<open>int(x)\<close> on a float: truncation towards zero.\<close>

definition int_of_float :: "real \<Rightarrow> int" where
  "int_of_float x = (if 0 \<le> x then \<lfloor>x\<rfloor> else \<lceil>x\<rceil>)"

text \<open>
  The inner \<open>for\<close> loop over the clips, on the state \<open>(music_buffer, current_pos)\<close>.
  Both \<open>break\<close>s return the state at once; the slice assignment
  \<open>music_buffer[current_pos:current_pos + samples_to_copy] = audio_data[:samples_to_copy]\<close>
  replaces that part of the buffer.
\<close>

fun fill_pass :: "(string \<times> real list) list \<Rightarrow> nat \<Rightarrow> real list \<times> nat \<Rightarrow> real list \<times> nat" where
  "fill_pass [] target_samples st = st"
| "fill_pass ((name, audio_data) # clips) target_samples (music_buffer, current_pos) =
     (if target_samples \<le> current_pos then (music_buffer, current_pos)
      else (let remaining_samples = target_samples - current_pos;
                samples_to_copy = min (length audio_data) remaining_samples;
                music_buffer = take current_pos music_buffer @ take samples_to_copy audio_data
                                 @ drop (current_pos + samples_to_copy) music_buffer;
                current_pos = current_pos + samples_to_copy
            in if samples_to_copy < length audio_data then (music_buffer, current_pos)
               else fill_pass clips target_samples (music_buffer, current_pos)))"

text \<open>The outer \<open>while current_pos < target_samples\<close> loop.  It need not terminate:
  \<open>None\<close> is a loop that runs forever.\<close>

partial_function (option) fill_cycles ::
    "(string \<times> real list) list \<Rightarrow> nat \<Rightarrow> real list \<times> nat \<Rightarrow> (real list \<times> nat) option" where
  "fill_cycles audio_clips target_samples st =
     (if snd st < target_samples
      then fill_cycles audio_clips target_samples (fill_pass audio_clips target_samples st)
      else Some st)"

text \<open>\<open>np.max(np.abs(music_buffer))\<close> raises \<open>ValueError\<close> on an empty array.\<close>

definition max_abs :: "real list \<Rightarrow> exn + real" where
  "max_abs music_buffer =
     (case music_buffer of
        [] \<Rightarrow> Inl (ValueError (unicode_of ''zero-size array to reduction operation maximum which has no identity''))
      | x # xs \<Rightarrow> Inr (fold (\<lambda>y m. max \<bar>y\<bar> m) xs \<bar>x\<bar>))"

definition normalize :: "real list \<Rightarrow> exn + real list" where
  "normalize music_buffer =
     (case max_abs music_buffer of
        Inl e \<Rightarrow> Inl e
      | Inr max_amplitude \<Rightarrow>
          (if 1 < max_amplitude then Inr (map (\<lambda>x. x / max_amplitude) music_buffer)
           else Inr music_buffer))"

text \<open>
  The second half of \<open>generate_level_music\<close>, from \<open># Create target buffer\<close> to the
  \<open>return\<close>: the buffer of \<open>int(duration_seconds * self.target_sample_rate)\<close> zeros
  (\<open>np.zeros\<close> raises \<open>ValueError\<close> for a negative size), the fill loop and the
  normalisation.  The result is \<open>None\<close> when the fill loop runs forever.
\<close>

definition compose_music :: "(string \<times> real list) list \<Rightarrow> real \<Rightarrow> (exn + real list) option" where
  "compose_music audio_clips duration_seconds =
     (let target_samples = int_of_float (duration_seconds * real target_sample_rate)
      in if target_samples < 0
         then Some (Inl (ValueError (unicode_of ''negative dimensions are not allowed'')))
         else (case fill_cycles audio_clips (nat target_samples)
                      (replicate (nat target_samples) 0, 0) of
                 None \<Rightarrow> None
               | Some (music_buffer, current_pos) \<Rightarrow> Some (normalize music_buffer)))"

text \<open>
  \<open>generate_level_music\<close> after the lookup of the level.  The result is \<open>None\<close> when
  the fill loop runs forever, \<open>Some (Inl e)\<close> when \<open>e\<close> is raised, \<open>Some (Inr None)\<close>
  when the method returns \<open>None\<close>, and \<open>Some (Inr (Some buffer))\<close> otherwise.
\<close>

definition generate_for_level ::
    "(string \<Rightarrow> real list option) \<Rightarrow> level_info option \<Rightarrow> real \<Rightarrow> (exn + real list option) option" where
  "generate_for_level load info duration_seconds =
     (case info of
        None \<Rightarrow> Some (Inr None)
      | Some level \<Rightarrow>
          (if level_audio_count level = 0 then Some (Inr None)
           else (let audio_files_sorted = sort_key sequence_key (level_audio_files level);
                     audio_clips = load_clips load audio_files_sorted
                 in if audio_clips = [] then Some (Inr None)
                    else (case compose_music audio_clips duration_seconds of
                            None \<Rightarrow> None
                          | Some (Inl e) \<Rightarrow> Some (Inl e)
                          | Some (Inr buffer) \<Rightarrow> Some (Inr (Some buffer))))))"

definition generate_level_music ::
    "(string \<Rightarrow> real list option) \<Rightarrow> level_info list option \<Rightarrow> string \<Rightarrow> real
       \<Rightarrow> (exn + real list option) option" where
  "generate_level_music load files name duration_seconds =
     generate_for_level load (get_level_info files name) duration_seconds"

text \<open>\<open>save_music\<close>: \<open>(audio_data * 32767).astype(np.int16)\<close> truncates towards zero
  and keeps the low 16 bits.\<close>

definition astype_int16 :: "real \<Rightarrow> 16 word" where
  "astype_int16 x = word_of_int (int_of_float x)"

definition convert_to_16bit :: "real list \<Rightarrow> 16 word list" where
  "convert_to_16bit audio_data = map (\<lambda>x. astype_int16 (x * 32767)) audio_data"

section \<open>Notions used in the statements\<close>

text \<open>The number of characters before the first dot of a text, letter case apart: every
  token of the catalog ends three characters after its only dot.\<close>

definition dot_index :: "string \<Rightarrow> nat" where
  "dot_index s = length (takeWhile (\<lambda>c. c \<noteq> CHR ''.'') (map lower_char s))"

text \<open>
  The title as the specification words it: the first fragment, between null bytes, of
  the bytes after the 8-byte header that consists of printable characters only, is
  longer than 10 characters and does not end with \<open>.lbm\<close>, cut to 50 characters.
\<close>

definition title_by_spec :: "bytes \<Rightarrow> string option" where
  "title_by_spec file_data =
     (case find (\<lambda>fragment. list_all isprintable fragment \<and> 10 < length fragment
                              \<and> \<not> endswith fragment ''.lbm'')
                (split_char (CHR 0x00) (drop 8 file_data)) of
        None \<Rightarrow> None
      | Some fragment \<Rightarrow> Some (take 50 fragment))"

text \<open>
  The resolver as the specification words it: the fallback is tried when the first
  character is an ASCII digit.
\<close>

definition resolve_by_spec :: "unicode_db \<Rightarrow> unicode set \<Rightarrow> unicode \<Rightarrow> bool \<times> unicode option" where
  "resolve_by_spec db inventory name =
     (if str_upper db name \<in> inventory then (True, Some (str_upper db name))
      else if 4 < length name \<and> 48 \<le> hd name \<and> hd name \<le> 57
              \<and> str_upper db (tl name) \<in> inventory
           then (True, Some (str_upper db (tl name)))
      else (False, None))"

section \<open>Facts about the scanner and the sequencer\<close>

lemma lower_char_dot: "lower_char c = CHR ''.'' \<longleftrightarrow> c = CHR ''.''"
  by (auto simp: lower_char_def ascii_lowercase_def ascii_uppercase_def split: if_splits)

lemma isdigit_not_dot: "isdigit c \<Longrightarrow> lower_char c \<noteq> CHR ''.''"
  by (auto simp: lower_char_dot isdigit_def)

lemma dot_index_Cons:
  "dot_index (x # xs) = (if lower_char x = CHR ''.'' then 0 else Suc (dot_index xs))"
  by (simp add: dot_index_def)

lemma match_lits_length:
  "match_here ic (lits l) t = Some m \<Longrightarrow> m = length l"
proof (induction l arbitrary: t m)
  case Nil
  then show ?case by (simp add: lits_def)
next
  case (Cons c l)
  then show ?case
    by (cases t) (auto simp: lits_def split: if_splits)
qed

lemma match_here_le_length:
  "match_here ic pat s = Some n \<Longrightarrow> n \<le> length s"
proof (induction ic pat s arbitrary: n rule: match_here.induct)
  case (8 ic ps x xs)
  then show ?case by (auto split: if_splits option.splits)
qed (auto split: if_splits)

lemma match_dotted:
  assumes "\<forall>a \<in> set pre. case a of Lit c \<Rightarrow> c \<noteq> CHR ''.''
              | Range lo hi \<Rightarrow> \<not> range_matches True lo hi (CHR ''.'')
              | Digits \<Rightarrow> True | EndOfString \<Rightarrow> False"
    and "match_here True (pre @ Lit (CHR ''.'') # lits l) s = Some n"
  shows "n = dot_index s + 1 + length l"
  using assms
proof (induction s arbitrary: pre n)
  case Nil
  then show ?case
    by (cases pre) (auto split: atom.splits)
next
  case (Cons x xs)
  show ?case
  proof (cases pre)
    case Nil
    have "lower_char (CHR ''.'') = CHR ''.''" by (simp add: lower_char_dot)
    with Nil Cons.prems(2) have x: "lower_char x = CHR ''.''"
      and r: "\<exists>n'. match_here True (lits l) xs = Some n' \<and> n = Suc n'"
      by (auto simp: lit_matches_def split: if_splits)
    from r match_lits_length have "n = Suc (length l)" by blast
    with x show ?thesis by (simp add: dot_index_Cons)
  next
    case pre: (Cons a pre')
    from Cons.prems(1) pre have rest: "\<forall>a \<in> set pre'. case a of Lit c \<Rightarrow> c \<noteq> CHR ''.''
              | Range lo hi \<Rightarrow> \<not> range_matches True lo hi (CHR ''.'')
              | Digits \<Rightarrow> True | EndOfString \<Rightarrow> False"
      by simp
    show ?thesis
    proof (cases a)
      case (Lit c)
      with Cons.prems pre have c: "c \<noteq> CHR ''.''" and m: "lit_matches True c x" 
        and r: "\<exists>n'. match_here True (pre' @ Lit (CHR ''.'') # lits l) xs = Some n' \<and> n = Suc n'"
        by (auto split: if_splits)
      from c m have "lower_char x \<noteq> CHR ''.''"
        by (auto simp: lit_matches_def lower_char_dot)
      with r Cons.IH [OF rest] show ?thesis by (auto simp: dot_index_Cons)
    next
      case (Range lo hi)
      with Cons.prems pre have c: "\<not> range_matches True lo hi (CHR ''.'')"
        and m: "range_matches True lo hi x" 
        and r: "\<exists>n'. match_here True (pre' @ Lit (CHR ''.'') # lits l) xs = Some n' \<and> n = Suc n'"
        by (auto split: if_splits)
      from c m have "lower_char x \<noteq> CHR ''.''"
        by (auto simp: lower_char_dot)
      with r Cons.IH [OF rest] show ?thesis by (auto simp: dot_index_Cons)
    next
      case Digits
      with Cons.prems pre have d: "isdigit x"
        and r: "(\<exists>n'. match_here True (pre @ Lit (CHR ''.'') # lits l) xs = Some n' \<and> n = Suc n')
              \<or> (\<exists>n'. match_here True (pre' @ Lit (CHR ''.'') # lits l) xs = Some n' \<and> n = Suc n')"
        by (auto split: if_splits option.splits)
      from d have "lower_char x \<noteq> CHR ''.''" by (rule isdigit_not_dot)
      with r Cons.IH [OF rest] Cons.IH [OF Cons.prems(1)] show ?thesis
        by (auto simp: dot_index_Cons)
    next
      case EndOfString
      with Cons.prems(1) pre show ?thesis by simp
    qed
  qed
qed

lemma audio_pattern_match_length:
  assumes "pat \<in> set audio_patterns" and "match_here True pat s = Some n"
  shows "n = dot_index s + 4"
proof -
  have nd: "\<not> range_matches True (CHR ''a'') (CHR ''z'') (CHR ''.'')"
    "\<not> range_matches True (CHR ''A'') (CHR ''Z'') (CHR ''.'')"
    by (simp_all add: range_matches_def in_range_def lower_char_def upper_char_def
        ascii_lowercase_def ascii_uppercase_def)
  note m = match_dotted [where s = s and n = n]
  from assms(1) consider
      "pat = Digits # lits ''rhyth.wav''" | "pat = Range (CHR ''a'') (CHR ''z'') # lits ''rhyth.wav''"
    | "pat = Lit (CHR ''!'') # Digits # lits ''rhyt.wav''"
    | "pat = Lit (CHR ''x'') # Digits # lits ''rhyt.wav''" | "pat = lits ''nosound.wav''"
    | "pat = Digits # lits ''RHYTH.WAV''" | "pat = Range (CHR ''A'') (CHR ''Z'') # lits ''RHYTH.WAV''"
    | "pat = Lit (CHR ''!'') # Digits # lits ''RHYT.WAV''"
    | "pat = Lit (CHR ''X'') # Digits # lits ''RHYT.WAV''" | "pat = lits ''NOSOUND.WAV''"
    by (auto simp: audio_patterns_def)
  then show ?thesis
  proof cases
    case 1
    with assms(2) m [of "Digits # lits ''rhyth''" "''wav''"] show ?thesis by (simp add: lits_def)
  next
    case 2
    with assms(2) nd m [of "Range (CHR ''a'') (CHR ''z'') # lits ''rhyth''" "''wav''"]
    show ?thesis by (simp add: lits_def)
  next
    case 3
    with assms(2) m [of "Lit (CHR ''!'') # Digits # lits ''rhyt''" "''wav''"]
    show ?thesis by (simp add: lits_def)
  next
    case 4
    with assms(2) m [of "Lit (CHR ''x'') # Digits # lits ''rhyt''" "''wav''"]
    show ?thesis by (simp add: lits_def)
  next
    case 5
    with assms(2) m [of "lits ''nosound''" "''wav''"] show ?thesis by (simp add: lits_def)
  next
    case 6
    with assms(2) m [of "Digits # lits ''RHYTH''" "''WAV''"] show ?thesis by (simp add: lits_def)
  next
    case 7
    with assms(2) nd m [of "Range (CHR ''A'') (CHR ''Z'') # lits ''RHYTH''" "''WAV''"]
    show ?thesis by (simp add: lits_def)
  next
    case 8
    with assms(2) m [of "Lit (CHR ''!'') # Digits # lits ''RHYT''" "''WAV''"]
    show ?thesis by (simp add: lits_def)
  next
    case 9
    with assms(2) m [of "Lit (CHR ''X'') # Digits # lits ''RHYT''" "''WAV''"]
    show ?thesis by (simp add: lits_def)
  next
    case 10
    with assms(2) m [of "lits ''NOSOUND''" "''WAV''"] show ?thesis by (simp add: lits_def)
  qed
qed

lemma finditer_from_sound:
  assumes "(f, q) \<in> set (finditer_from pat pos skip s)"
  shows "pos \<le> q \<and> (\<exists>n. match_here True pat (drop (q - pos) s) = Some n
            \<and> f = upper (take n (drop (q - pos) s)))"
  using assms
proof (induction s arbitrary: pos skip)
  case Nil
  then show ?case by simp
next
  case (Cons c cs)
  have step: "pos \<le> q \<and> (\<exists>n. match_here True pat (drop (q - pos) (c # cs)) = Some n
            \<and> f = upper (take n (drop (q - pos) (c # cs))))"
    if "(f, q) \<in> set (finditer_from pat (Suc pos) k cs)" for k
  proof -
    from Cons.IH [OF that] have le: "Suc pos \<le> q"
      and ex: "\<exists>n. match_here True pat (drop (q - Suc pos) cs) = Some n
            \<and> f = upper (take n (drop (q - Suc pos) cs))" by simp_all
    from le have "q - pos = Suc (q - Suc pos)" by simp
    then have "drop (q - pos) (c # cs) = drop (q - Suc pos) cs" by simp
    with le ex show ?thesis by simp
  qed
  show ?case
  proof (cases "0 < skip")
    case True
    with Cons.prems have "(f, q) \<in> set (finditer_from pat (Suc pos) (skip - 1) cs)" by simp
    then show ?thesis by (rule step)
  next
    case False
    show ?thesis
    proof (cases "match_here True pat (c # cs)")
      case None
      with False Cons.prems have "(f, q) \<in> set (finditer_from pat (Suc pos) 0 cs)" by simp
      then show ?thesis by (rule step)
    next
      case (Some n)
      with False Cons.prems consider "f = upper (take n (c # cs))" "q = pos"
        | "(f, q) \<in> set (finditer_from pat (Suc pos) (n - 1) cs)" by auto
      then show ?thesis
      proof cases
        case 1
        with Some show ?thesis by simp
      next
        case 2
        then show ?thesis by (rule step)
      qed
    qed
  qed
qed

lemma all_matches_sound:
  assumes "(f, q) \<in> set (all_matches text)"
  shows "f = upper (take (dot_index (drop q text) + 4) (drop q text))"
proof -
  from assms obtain pat where pat: "pat \<in> set audio_patterns"
    and m: "(f, q) \<in> set (finditer_from pat 0 0 text)"
    by (auto simp: all_matches_def finditer_def)
  from finditer_from_sound [OF m] obtain n where
    "match_here True pat (drop q text) = Some n" "f = upper (take n (drop q text))" by auto
  with audio_pattern_match_length [OF pat] show ?thesis by simp
qed

lemma all_matches_same_position:
  "(f, q) \<in> set (all_matches text) \<Longrightarrow> (g, q) \<in> set (all_matches text) \<Longrightarrow> f = g"
  using all_matches_sound [of f q "text"] all_matches_sound [of g q "text"] by simp

lemma all_matches_spelled:
  assumes "(f, q) \<in> set (all_matches txt)"
  shows "upper (take (length f) (drop q txt)) = f"
proof -
  let ?n = "dot_index (drop q txt) + 4"
  from all_matches_sound [OF assms] have f: "f = upper (take ?n (drop q txt))" .
  then have l: "length f = length (take ?n (drop q txt))" by (simp add: upper_def)
  have "take (length (take ?n (drop q txt))) (drop q txt) = take ?n (drop q txt)"
    by (cases "?n \<le> length (drop q txt)") (simp_all add: min_def)
  with l have "take (length f) (drop q txt) = take ?n (drop q txt)" by (simp only:)
  with f show ?thesis by (simp only:)
qed

lemma remove_duplicates_subset:
  "(f, p) \<in> set (remove_duplicates seen ms) \<Longrightarrow> (f, p) \<in> set ms \<and> f \<notin> seen \<and> 4 < length f"
proof (induction seen ms rule: remove_duplicates.induct)
  case (1 seen)
  then show ?case by simp
next
  case (2 seen g q ms)
  then show ?case by (auto split: if_splits)
qed

lemma remove_duplicates_distinct: "distinct (map fst (remove_duplicates seen ms))"
proof (induction seen ms rule: remove_duplicates.induct)
  case (1 seen)
  show ?case by simp
next
  case (2 seen g q ms)
  have "g \<notin> fst ` set (remove_duplicates (insert g seen) ms)"
    using remove_duplicates_subset [of _ _ "insert g seen" ms] by fastforce
  with 2 show ?case by simp
qed

lemma remove_duplicates_first:
  assumes "sorted (map snd ms)" and "(f, p) \<in> set (remove_duplicates seen ms)"
    and "(f, q) \<in> set ms"
  shows "p \<le> q"
  using assms
proof (induction seen ms rule: remove_duplicates.induct)
  case (1 seen)
  then show ?case by simp
next
  case (2 seen g r ms)
  from "2.prems"(1) have s: "sorted (map snd ms)" and lo: "\<forall>x \<in> set ms. r \<le> snd x"
    by simp_all
  show ?case
  proof (cases "g \<notin> seen \<and> 4 < length g")
    case True
    with "2.prems"(2) consider "f = g" "p = r" | "(f, p) \<in> set (remove_duplicates (insert g seen) ms)"
      by auto
    then show ?thesis
    proof cases
      case 1
      with "2.prems"(3) lo show ?thesis by auto
    next
      case b: 2
      from remove_duplicates_subset [OF b] have "f \<noteq> g" by simp
      with "2.prems"(3) have "(f, q) \<in> set ms" by simp
      from "2.IH"(1) [OF True s b this] show ?thesis .
    qed
  next
    case False
    with "2.prems"(2) have b: "(f, p) \<in> set (remove_duplicates seen ms)" by auto
    from remove_duplicates_subset [OF b] False have "f \<noteq> g" by auto
    with "2.prems"(3) have "(f, q) \<in> set ms" by simp
    from "2.IH"(2) [OF False s b this] show ?thesis .
  qed
qed

lemma remove_duplicates_strict:
  assumes "sorted (map snd ms)"
    and "\<And>f g q. (f, q) \<in> set ms \<Longrightarrow> (g, q) \<in> set ms \<Longrightarrow> f = g"
  shows "sorted_wrt (<) (map snd (remove_duplicates seen ms))"
  using assms
proof (induction seen ms rule: remove_duplicates.induct)
  case (1 seen)
  show ?case by simp
next
  case (2 seen g r ms)
  from "2.prems"(1) have s: "sorted (map snd ms)" and lo: "\<forall>x \<in> set ms. r \<le> snd x"
    by simp_all
  have u: "\<And>f g q. (f, q) \<in> set ms \<Longrightarrow> (g, q) \<in> set ms \<Longrightarrow> f = g"
    using "2.prems"(2) by (meson list.set_intros(2))
  show ?case
  proof (cases "g \<notin> seen \<and> 4 < length g")
    case True
    have "r < p" if "(f, p) \<in> set (remove_duplicates (insert g seen) ms)" for f p
    proof -
      from remove_duplicates_subset [OF that] have in_ms: "(f, p) \<in> set ms" and ne: "f \<noteq> g"
        by simp_all
      from in_ms lo have "r \<le> p" by auto
      moreover have "r \<noteq> p"
      proof
        assume "r = p"
        with in_ms have "(f, r) \<in> set ((g, r) # ms)" "(g, r) \<in> set ((g, r) # ms)" by simp_all
        from "2.prems"(2) [OF this] ne show False by simp
      qed
      ultimately show ?thesis by simp
    qed
    then have "\<forall>x \<in> set (remove_duplicates (insert g seen) ms). r < snd x" by auto
    with True "2.IH"(1) [OF True s u] show ?thesis by simp
  next
    case False
    with "2.IH"(2) [OF False s u] show ?thesis by auto
  qed
qed

lemma process_audio_files_fields:
  "map sequence_position (process_audio_files db av k xs) = [k..<k + length xs]
 \<and> map binary_offset (process_audio_files db av k xs) = map snd xs
 \<and> map filename (process_audio_files db av k xs) = map fst xs"
proof (induction xs arbitrary: k)
  case Nil
  show ?case by simp
next
  case (Cons x xs)
  obtain f p where x: "x = (f, p)" by (cases x)
  have "[k..<Suc k + length xs] = k # [Suc k..<Suc k + length xs]"
    by (rule upt_conv_Cons) simp
  moreover have "k + length (x # xs) = Suc k + length xs"
    by simp
  ultimately have e: "[k..<k + length (x # xs)] = k # [Suc k..<Suc k + length xs]"
    by (simp only:)
  from Cons [of "Suc k"] show ?case
    unfolding e by (simp add: x Let_def split: prod.splits)
qed

lemma extract_offsets_in_decoded_text:
  assumes "(f, q) \<in> set (extract_audio_sequence_from_data data)"
  shows "upper (take (length f) (drop q (decode_ascii_ignore data))) = f"
proof -
  from assms have "(f, q) \<in> set (sort_key snd (all_matches (decode_ascii_ignore data)))"
    unfolding extract_audio_sequence_from_data_def by (auto dest: remove_duplicates_subset)
  then have "(f, q) \<in> set (all_matches (decode_ascii_ignore data))" by simp
  then show ?thesis by (rule all_matches_spelled)
qed

section \<open>Facts about the fill loop\<close>

lemma fill_pass_empty_clips:
  "\<forall>c \<in> set clips. snd c = [] \<Longrightarrow> fill_pass clips t (buf, pos) = (buf, pos)"
  by (induction clips) (auto simp: Let_def)

lemma fill_cycles_Some_not_stuck:
  assumes "fill_cycles clips t st = Some y"
  shows "\<not> ((\<forall>c \<in> set clips. snd c = []) \<and> snd st < t)"
proof (rule fill_cycles.raw_induct
    [where P = "\<lambda>clips t st y. \<not> ((\<forall>c \<in> set clips. snd c = []) \<and> snd st < t)", OF _ assms])
  fix f :: "(string \<times> real list) list \<Rightarrow> nat \<Rightarrow> real list \<times> nat \<Rightarrow> (real list \<times> nat) option"
  fix clips t st y
  assume IH: "\<And>clips t st y. f clips t st = Some y \<Longrightarrow>
      \<not> ((\<forall>c \<in> set clips. snd c = []) \<and> snd st < t)"
  assume step: "(if snd st < t then f clips t (fill_pass clips t st) else Some st) = Some y"
  show "\<not> ((\<forall>c \<in> set clips. snd c = []) \<and> snd st < t)"
  proof
    assume h: "(\<forall>c \<in> set clips. snd c = []) \<and> snd st < t"
    then have "fill_pass clips t st = st"
      using fill_pass_empty_clips [of clips t "fst st" "snd st"] by simp
    with step h have "f clips t st = Some y" by simp
    from IH [OF this] h show False by blast
  qed
qed

lemma fill_cycles_empty_clips:
  assumes "\<forall>c \<in> set clips. snd c = []" and "snd st < t"
  shows "fill_cycles clips t st = None"
proof (cases "fill_cycles clips t st")
  case None
  then show ?thesis .
next
  case (Some y)
  from fill_cycles_Some_not_stuck [OF this] assms show ?thesis by blast
qed

lemma fill_pass_trunc:
  "pos < t \<Longrightarrow> t - pos < length a \<Longrightarrow>
   fill_pass ((n, a) # cs) t (buf, pos) = (take pos buf @ take (t - pos) a @ drop t buf, t)"
  by (simp add: Let_def min_def)

lemma fill_pass_whole:
  "pos < t \<Longrightarrow> \<not> t - pos < length a \<Longrightarrow>
   fill_pass ((n, a) # cs) t (buf, pos) =
     fill_pass cs t (take pos buf @ a @ drop (pos + length a) buf, pos + length a)"
  by (simp add: Let_def min_def)

lemma fill_pass_bounds:
  assumes "fill_pass clips t (buf, pos) = (buf', pos')" and "pos \<le> t" and "t \<le> length buf"
  shows "pos \<le> pos' \<and> pos' \<le> t \<and> length buf' = length buf"
  using assms
proof (induction clips arbitrary: buf pos)
  case Nil
  then show ?case by simp
next
  case (Cons c clips)
  obtain n a where c: "c = (n, a)" by (cases c)
  show ?case
  proof (cases "t \<le> pos")
    case True
    with Cons.prems c show ?thesis by simp
  next
    case False
    then have lt: "pos < t" by simp
    show ?thesis
    proof (cases "t - pos < length a")
      case True
      have "fill_pass (c # clips) t (buf, pos) = (take pos buf @ take (t - pos) a @ drop t buf, t)"
        unfolding c by (rule fill_pass_trunc [OF lt True])
      with Cons.prems(1) have e: "buf' = take pos buf @ take (t - pos) a @ drop t buf" "pos' = t"
        by auto
      have "length (take pos buf @ take (t - pos) a @ drop t buf) = length buf"
        using lt True Cons.prems(3) by simp
      with e lt show ?thesis by simp
    next
      case F2: False
      let ?b = "take pos buf @ a @ drop (pos + length a) buf"
      have "fill_pass (c # clips) t (buf, pos) = fill_pass clips t (?b, pos + length a)"
        unfolding c by (rule fill_pass_whole [OF lt F2])
      with Cons.prems(1) have r: "fill_pass clips t (?b, pos + length a) = (buf', pos')"
        by simp
      have len: "length ?b = length buf" using lt F2 Cons.prems(3) by simp
      have "pos + length a \<le> t" using lt F2 by simp
      from Cons.IH [OF r this] len Cons.prems(3) show ?thesis by simp
    qed
  qed
qed

lemma fill_pass_progress:
  assumes "fill_pass clips t (buf, pos) = (buf', pos')" and "pos < t" and "t \<le> length buf"
    and "\<exists>c \<in> set clips. snd c \<noteq> []"
  shows "pos < pos'"
  using assms
proof (induction clips arbitrary: buf pos)
  case Nil
  then show ?case by simp
next
  case (Cons c clips)
  obtain n a where c: "c = (n, a)" by (cases c)
  show ?case
  proof (cases "t - pos < length a")
    case True
    have "fill_pass (c # clips) t (buf, pos) = (take pos buf @ take (t - pos) a @ drop t buf, t)"
      unfolding c by (rule fill_pass_trunc [OF Cons.prems(2) True])
    with Cons.prems(1) have "pos' = t" by auto
    with Cons.prems(2) show ?thesis by simp
  next
    case False
    let ?b = "take pos buf @ a @ drop (pos + length a) buf"
    have "fill_pass (c # clips) t (buf, pos) = fill_pass clips t (?b, pos + length a)"
      unfolding c by (rule fill_pass_whole [OF Cons.prems(2) False])
    with Cons.prems(1) have r: "fill_pass clips t (?b, pos + length a) = (buf', pos')"
      by simp
    have len: "t \<le> length ?b" using False Cons.prems(2,3) by simp
    have le: "pos + length a \<le> t" using False Cons.prems(2) by simp
    show ?thesis
    proof (cases "a = []")
      case True
      with c Cons.prems(4) have ex: "\<exists>c \<in> set clips. snd c \<noteq> []" by simp
      from True r have "fill_pass clips t (?b, pos) = (buf', pos')" by simp
      from Cons.IH [OF this Cons.prems(2) len ex] show ?thesis .
    next
      case F2: False
      from fill_pass_bounds [OF r le len] have "pos + length a \<le> pos'" by simp
      with F2 show ?thesis by (cases a) simp_all
    qed
  qed
qed

lemma fill_cycles_terminates:
  assumes "\<exists>c \<in> set clips. snd c \<noteq> []" and "length buf = t" and "pos \<le> t"
  shows "\<exists>buf'. fill_cycles clips t (buf, pos) = Some (buf', t) \<and> length buf' = t"
  using assms(2,3)
proof (induction "t - pos" arbitrary: buf pos rule: less_induct)
  case less
  show ?case
  proof (cases "pos < t")
    case False
    with less.prems show ?thesis by (subst fill_cycles.simps) simp
  next
    case True
    obtain b' p' where fp: "fill_pass clips t (buf, pos) = (b', p')"
      by (cases "fill_pass clips t (buf, pos)")
    from less.prems have tl: "t \<le> length buf" by simp
    from fill_pass_bounds [OF fp less.prems(2) tl] less.prems have b: "p' \<le> t" "length b' = t"
      by simp_all
    from fill_pass_progress [OF fp True tl assms(1)] have "pos < p'" .
    with True b have "t - p' < t - pos" by simp
    from less.hyps [OF this b(2) b(1)] obtain buf' where
      "fill_cycles clips t (b', p') = Some (buf', t)" "length buf' = t" by blast
    with True fp show ?thesis by (subst fill_cycles.simps) simp
  qed
qed

lemma fill_pass_written:
  assumes "t = length w + k" and "pos = length w"
  shows "fill_pass ((n, a) # cs) t (w @ replicate k 0, pos) =
           (if k = 0 then (w, pos)
            else if k < length a then (w @ take k a, t)
            else fill_pass cs t ((w @ a) @ replicate (k - length a) 0, length (w @ a)))"
  using assms by (auto simp: Let_def min_def)

lemma fill_two_clips_5:
  assumes A: "length A = 2 * r" and B: "length B = r" and r: "0 < r"
  shows "fill_cycles [(a, A), (b, B)] (5 * r) (replicate (5 * r) 0, 0) = Some (A @ B @ A, 5 * r)"
proof -
  let ?cs = "[(a, A), (b, B)]"
  have "fill_pass ?cs (5 * r) ([] @ replicate (5 * r) 0, 0)
          = fill_pass [(b, B)] (5 * r) (([] @ A) @ replicate (5 * r - length A) 0, length ([] @ A))"
    using r A by (subst fill_pass_written) simp_all
  also have "\<dots> = fill_pass [(b, B)] (5 * r) (A @ replicate (3 * r) 0, 2 * r)"
    using A by simp
  also have "\<dots> = fill_pass [] (5 * r) ((A @ B) @ replicate (3 * r - length B) 0, length (A @ B))"
    using r A B by (subst fill_pass_written) simp_all
  also have "\<dots> = ((A @ B) @ replicate (2 * r) 0, 3 * r)"
    using A B by simp
  finally have 1: "fill_pass ?cs (5 * r) (replicate (5 * r) 0, 0) = ((A @ B) @ replicate (2 * r) 0, 3 * r)"
    by simp
  have "fill_pass ?cs (5 * r) ((A @ B) @ replicate (2 * r) 0, 3 * r)
          = fill_pass [(b, B)] (5 * r) (((A @ B) @ A) @ replicate (2 * r - length A) 0, length ((A @ B) @ A))"
    using r A B by (subst fill_pass_written) simp_all
  also have "\<dots> = fill_pass [(b, B)] (5 * r) (A @ B @ A, 5 * r)"
    using A B by simp
  also have "\<dots> = (A @ B @ A, 5 * r)"
    by simp
  finally have 2: "fill_pass ?cs (5 * r) (A @ B @ replicate (2 * r) 0, 3 * r) = (A @ B @ A, 5 * r)"
    by simp
  have "fill_cycles ?cs (5 * r) (replicate (5 * r) 0, 0)
          = fill_cycles ?cs (5 * r) ((A @ B) @ replicate (2 * r) 0, 3 * r)"
    using r by (subst fill_cycles.simps) (simp add: 1 del: fill_pass.simps)
  also have "\<dots> = fill_cycles ?cs (5 * r) (A @ B @ A, 5 * r)"
    using r by (subst fill_cycles.simps) (simp add: 2 del: fill_pass.simps)
  also have "\<dots> = Some (A @ B @ A, 5 * r)"
    by (subst fill_cycles.simps) simp
  finally show ?thesis .
qed

lemma fill_two_clips_4:
  assumes A: "length A = 2 * r" and B: "length B = r" and r: "0 < r"
  shows "fill_cycles [(a, A), (b, B)] (4 * r) (replicate (4 * r) 0, 0)
           = Some (A @ B @ take r A, 4 * r)"
proof -
  let ?cs = "[(a, A), (b, B)]"
  have "fill_pass ?cs (4 * r) ([] @ replicate (4 * r) 0, 0)
          = fill_pass [(b, B)] (4 * r) (([] @ A) @ replicate (4 * r - length A) 0, length ([] @ A))"
    using r A by (subst fill_pass_written) simp_all
  also have "\<dots> = fill_pass [(b, B)] (4 * r) (A @ replicate (2 * r) 0, 2 * r)"
    using A by simp
  also have "\<dots> = fill_pass [] (4 * r) ((A @ B) @ replicate (2 * r - length B) 0, length (A @ B))"
    using r A B by (subst fill_pass_written) simp_all
  also have "\<dots> = ((A @ B) @ replicate r 0, 3 * r)"
    using A B by simp
  finally have 1: "fill_pass ?cs (4 * r) (replicate (4 * r) 0, 0) = ((A @ B) @ replicate r 0, 3 * r)"
    by simp
  have "fill_pass ?cs (4 * r) ((A @ B) @ replicate r 0, 3 * r) = ((A @ B) @ take r A, 4 * r)"
    using r A B by (subst fill_pass_written) simp_all
  then have 2: "fill_pass ?cs (4 * r) (A @ B @ replicate r 0, 3 * r) = (A @ B @ take r A, 4 * r)"
    by simp
  have "fill_cycles ?cs (4 * r) (replicate (4 * r) 0, 0)
          = fill_cycles ?cs (4 * r) ((A @ B) @ replicate r 0, 3 * r)"
    using r by (subst fill_cycles.simps) (simp add: 1 del: fill_pass.simps)
  also have "\<dots> = fill_cycles ?cs (4 * r) ((A @ B) @ take r A, 4 * r)"
    using r by (subst fill_cycles.simps) (simp add: 2 del: fill_pass.simps)
  also have "\<dots> = Some ((A @ B) @ take r A, 4 * r)"
    by (subst fill_cycles.simps) simp
  finally show ?thesis by simp
qed

lemma compose_music_empty_clips:
  assumes "\<forall>c \<in> set clips. snd c = []" and "0 < int_of_float (d * real target_sample_rate)"
  shows "compose_music clips d = None"
proof -
  let ?n = "nat (int_of_float (d * real target_sample_rate))"
  from assms(2) have "snd (replicate ?n (0::real), 0::nat) < ?n" by simp
  from fill_cycles_empty_clips [OF assms(1) this] assms(2) show ?thesis
    by (simp add: compose_music_def Let_def)
qed

section \<open>Facts about normalisation and the 16-bit conversion\<close>

lemma fold_max_abs: "fold (\<lambda>y m. max \<bar>y\<bar> m) xs a = Max (insert a (abs ` set xs))"
proof (induction xs arbitrary: a)
  case Nil
  show ?case by simp
next
  case (Cons x xs)
  have "Max (insert (max \<bar>x\<bar> a) (abs ` set xs)) = Max (insert a (insert \<bar>x\<bar> (abs ` set xs)))"
  proof (cases "set xs = {}")
    case True
    then show ?thesis by (simp add: max.commute)
  next
    case False
    then show ?thesis by (simp add: max.commute max.left_commute max.assoc)
  qed
  with Cons show ?case by simp
qed

lemma max_abs_Max: "buf \<noteq> [] \<Longrightarrow> max_abs buf = Inr (Max (abs ` set buf))"
  by (cases buf) (simp_all add: max_abs_def fold_max_abs)

lemma peak_nonneg: "buf \<noteq> [] \<Longrightarrow> 0 \<le> Max (abs ` set (buf :: real list))"
proof -
  assume "buf \<noteq> []"
  then obtain x where "x \<in> set buf" by (cases buf) auto
  then have "\<bar>x\<bar> \<le> Max (abs ` set buf)" by simp
  then show ?thesis by linarith
qed

lemma scaled_peak:
  assumes "buf \<noteq> []" and "0 < Max (abs ` set (buf :: real list))"
  shows "Max (abs ` set (map (\<lambda>x. x / Max (abs ` set buf)) buf)) = 1"
proof (rule Max_eqI)
  let ?m = "Max (abs ` set buf)"
  show "finite (abs ` set (map (\<lambda>x. x / ?m) buf))" by simp
  show "y \<le> 1" if "y \<in> abs ` set (map (\<lambda>x. x / ?m) buf)" for y
  proof -
    from that obtain x where x: "x \<in> set buf" and y: "y = \<bar>x / ?m\<bar>" by auto
    from x have "\<bar>x\<bar> \<le> ?m" by simp
    with assms(2) show ?thesis unfolding y by (simp add: pos_divide_le_eq)
  qed
  have "?m \<in> abs ` set buf" using assms(1) by (intro Max_in) simp_all
  then obtain x where x: "x \<in> set buf" and m: "?m = \<bar>x\<bar>" by auto
  have "\<bar>x / ?m\<bar> = 1" using assms(2) m by simp
  with x show "1 \<in> abs ` set (map (\<lambda>x. x / ?m) buf)" by force
qed

lemma normalize_bounded:
  assumes "normalize b = Inr buf" and "x \<in> set buf"
  shows "\<bar>x\<bar> \<le> 1"
proof (cases "b = []")
  case True
  with assms show ?thesis by (simp add: normalize_def max_abs_def)
next
  case False
  let ?m = "Max (abs ` set b)"
  show ?thesis
  proof (cases "1 < ?m")
    case True
    with False assms(1) have buf: "buf = map (\<lambda>x. x / ?m) b"
      by (simp add: normalize_def max_abs_Max)
    with assms(2) obtain y where y: "y \<in> set b" and x: "x = y / ?m" by auto
    from y have "\<bar>y\<bar> \<le> ?m" by simp
    moreover from True have "0 < ?m" by linarith
    ultimately show ?thesis unfolding x by (simp add: pos_divide_le_eq)
  next
    case F2: False
    with False assms(1) have "buf = b" by (simp add: normalize_def max_abs_Max)
    with assms(2) have "\<bar>x\<bar> \<le> ?m" by simp
    with F2 show ?thesis by linarith
  qed
qed

lemma compose_music_bounded:
  assumes "compose_music clips d = Some (Inr buf)" and "x \<in> set buf"
  shows "\<bar>x\<bar> \<le> 1"
  using assms
  by (auto simp: compose_music_def Let_def split: option.splits if_splits prod.splits
      dest: normalize_bounded)

lemma generate_for_level_bounded:
  assumes "generate_for_level load info d = Some (Inr (Some buf))" and "x \<in> set buf"
  shows "\<bar>x\<bar> \<le> 1"
  using assms
  by (auto simp: generate_for_level_def Let_def
      split: option.splits if_splits sum.splits dest: compose_music_bounded)


lemma int_of_float_scaled:
  assumes "\<bar>x\<bar> \<le> 1"
  shows "- 32767 \<le> int_of_float (x * 32767) \<and> int_of_float (x * 32767) \<le> 32767"
proof -
  from assms have "x * 32767 \<le> 32767" "- 32767 \<le> x * 32767" by (simp_all add: abs_le_iff)
  then show ?thesis
    unfolding int_of_float_def by (auto simp: floor_le_iff le_floor_iff ceiling_le_iff le_ceiling_iff) 
qed

lemma sint_astype_int16:
  assumes "\<bar>x\<bar> \<le> 1"
  shows "sint (astype_int16 (x * 32767)) = int_of_float (x * 32767)"
proof -
  from int_of_float_scaled [OF assms]
  have "- (2 ^ 15) \<le> int_of_float (x * 32767)" "int_of_float (x * 32767) < 2 ^ 15" by simp_all
  then show ?thesis
    by (simp add: astype_int16_def sint_sbintrunc' signed_take_bit_int_eq_self)
qed

lemma int_of_float_of_nat: "int_of_float (real n) = int n"
  by (simp add: int_of_float_def)

lemma normalize_unchanged:
  assumes "buf \<noteq> []" and "\<forall>x \<in> set buf. \<bar>x\<bar> \<le> 1"
  shows "normalize buf = Inr buf"
proof -
  have "Max (abs ` set buf) \<le> 1"
    using assms by (subst Max_le_iff) auto
  then have "\<not> 1 < Max (abs ` set buf)" by linarith
  moreover have "max_abs buf = Inr (Max (abs ` set buf))"
    using assms(1) by (rule max_abs_Max)
  ultimately show ?thesis by (simp only: normalize_def sum.case if_False)
qed

lemma compose_music_filled:
  assumes "fill_cycles clips n (replicate n 0, 0) = Some (buf, pos)"
    and "buf \<noteq> []" and "\<forall>x \<in> set buf. \<bar>x\<bar> \<le> 1"
    and "d * real target_sample_rate = real n"
  shows "compose_music clips d = Some (Inr buf)"
  using assms(1) normalize_unchanged [OF assms(2,3)]
  by (simp add: compose_music_def assms(4) int_of_float_of_nat)

lemma compose_two_clips_5:
  assumes A: "length A = 2 * target_sample_rate" and B: "length B = target_sample_rate"
    and bound: "\<forall>x \<in> set A \<union> set B. \<bar>x\<bar> \<le> 1"
  shows "compose_music [(a, A), (b, B)] 5 = Some (Inr (A @ B @ A))"
proof -
  have r: "0 < target_sample_rate" by (simp add: target_sample_rate_def)
  from A r have ne: "A @ B @ A \<noteq> []" by auto
  from bound have b: "\<forall>x \<in> set (A @ B @ A). \<bar>x\<bar> \<le> 1" by auto
  have d: "5 * real target_sample_rate = real (5 * target_sample_rate)" by simp
  from compose_music_filled [OF fill_two_clips_5 [OF A B r] ne b d] show ?thesis .
qed

lemma compose_two_clips_4:
  assumes A: "length A = 2 * target_sample_rate" and B: "length B = target_sample_rate"
    and bound: "\<forall>x \<in> set A \<union> set B. \<bar>x\<bar> \<le> 1"
  shows "compose_music [(a, A), (b, B)] 4 = Some (Inr (A @ B @ take target_sample_rate A))"
proof -
  have r: "0 < target_sample_rate" by (simp add: target_sample_rate_def)
  from A r have ne: "A @ B @ take target_sample_rate A \<noteq> []" by auto
  from bound have b: "\<forall>x \<in> set (A @ B @ take target_sample_rate A). \<bar>x\<bar> \<le> 1"
    by (auto dest: in_set_takeD)
  have d: "4 * real target_sample_rate = real (4 * target_sample_rate)" by simp
  from compose_music_filled [OF fill_two_clips_4 [OF A B r] ne b d] show ?thesis .
qed

section \<open>Facts about the title loop and the sort of the generator\<close>

lemma title_loop_find:
  "title_loop lines =
     (case find (\<lambda>line. 10 < length (strip (filter isprintable line))
                          \<and> \<not> endswith (strip (filter isprintable line)) ''.lbm'') lines of
        None \<Rightarrow> None
      | Some line \<Rightarrow> Some (take 50 (strip (filter isprintable line))))"
  by (induction lines) (simp_all add: Let_def)

lemma sort_key_permutation:
  assumes "mset xs = mset ys" and "distinct (map f xs)"
  shows "sort_key f xs = sort_key f ys"
proof (rule sort_key_inj_key_eq)
  show "mset xs = mset (sort_key f ys)" using assms(1) by simp
  show "inj_on f (set xs)" using assms(2) by (simp add: distinct_map)
  show "sorted (map f (sort_key f ys))" by simp
qed

section \<open>Facts about the resolver's text and about printing\<close>

text \<open>The name \<open>6970RHYTH.WAV\<close> under any character database: it is its own uppercase
  form, and its first character is a digit.\<close>

lemma str_upper_ascii_upper:
  "str_upper db (unicode_of ''6970RHYTH.WAV'') = unicode_of ''6970RHYTH.WAV''"
  "str_upper db (unicode_of ''970RHYTH.WAV'') = unicode_of ''970RHYTH.WAV''"
  "str_isdigit db (hd (unicode_of ''6970RHYTH.WAV''))"
  "tl (unicode_of ''6970RHYTH.WAV'') = unicode_of ''970RHYTH.WAV''"
  "length (unicode_of ''6970RHYTH.WAV'') = 13"
  by (simp_all add: str_upper_def upper_code_def unicode_of_def str_isdigit_def)

text \<open>A standard output that accepts every line.\<close>

lemma print_all_quiet:
  assumes "\<And>line. print_line w line = Inr ()"
  shows "print_all w lines = Inr ()"
  by (induction lines) (simp_all add: assms)

text \<open>The two \<open>print\<close> calls that are not inside the \<open>try\<close> block: an exception of the
  first one, or of the one in the \<open>except\<close> clause, leaves \<open>parse_elv_file\<close>.\<close>

lemma parse_elv_file_first_print_raises:
  assumes "print_line w (parsing_line (basename p)) = Inl e"
  shows "parse_elv_file w db av now p = Inl e"
  using assms by (simp add: parse_elv_file_def Let_def)

lemma parse_elv_file_handler_print_raises:
  assumes "print_line w (parsing_line (basename p)) = Inr ()"
    and "path_exists w p" and "getsize w p = Inl e"
    and "print_line w (error_line e) = Inl e'"
  shows "parse_elv_file w db av now p = Inl e'"
  using assms by (simp add: parse_elv_file_def try_block_def Let_def)

text \<open>
  With a standard output that accepts every line, \<open>parse_elv_file\<close> returns a record
  for every path: a missing file, a file of fewer than 8 bytes or without the magic tag
  \<open>ELVD\<close>, and an exception of \<open>os.path.getsize\<close>, \<open>open\<close> or \<open>read\<close> each give a
  record with the error message set, no audio files and \<open>parse_success\<close> false; a
  well-formed file gives the record of its version, title and audio sequence; a record
  without \<open>parse_success\<close> has its error message set and no audio files.
\<close>

lemma parse_elv_file_quiet_stdout:
  assumes q: "\<And>line. print_line w line = Inr ()"
  shows "\<exists>r. parse_elv_file w db av now p = Inr r
    \<and> (\<not> path_exists w p \<longrightarrow>
          error_message r = Some (unicode_of ''File not found: '' @ p)
          \<and> audio_files r = [] \<and> \<not> parse_success r)
    \<and> (path_exists w p \<and> getsize w p = Inr n \<and> read_file w p = Inr d
          \<and> (length d < 8 \<or> take 4 d \<noteq> ''ELVD'') \<longrightarrow>
          error_message r = Some (unicode_of ''Invalid ELVD header'')
          \<and> audio_files r = [] \<and> \<not> parse_success r)
    \<and> (path_exists w p \<and> getsize w p = Inl e \<longrightarrow>
          error_message r = Some (unicode_of ''Parse error: '' @ str_exn e)
          \<and> audio_files r = [] \<and> \<not> parse_success r)
    \<and> (path_exists w p \<and> getsize w p = Inr n \<and> read_file w p = Inl e \<longrightarrow>
          error_message r = Some (unicode_of ''Parse error: '' @ str_exn e)
          \<and> audio_files r = [] \<and> \<not> parse_success r)
    \<and> (path_exists w p \<and> getsize w p = Inr n \<and> read_file w p = Inr d
          \<and> 8 \<le> length d \<and> take 4 d = ''ELVD'' \<longrightarrow>
          parse_success r \<and> file_size r = n
          \<and> elvd_version r = unpack_u16_le (take 2 (drop 4 d))
          \<and> level_title r = extract_level_title d
          \<and> audio_files r = process_audio_files db av 0 (extract_audio_sequence_from_data d)
          \<and> audio_count r = length (extract_audio_sequence_from_data d))
    \<and> (\<not> parse_success r \<longrightarrow> error_message r \<noteq> None \<and> audio_files r = [])
    \<and> (parse_success r \<longrightarrow> error_message r = None)"
proof -
  have pa: "print_all w lines = Inr ()" for lines
    by (rule print_all_quiet) (rule q)
  have len: "length (process_audio_files db av k xs) = length xs" for k xs
    using process_audio_files_fields [of db av k xs] by (metis length_map)
  have nil: "(process_audio_files db av k xs = []) = (xs = [])" for k xs
    using len [of k xs] by (cases xs) auto
  show ?thesis
  proof (cases "path_exists w p")
    case False
    then show ?thesis by (simp add: parse_elv_file_def Let_def q)
  next
    case True
    show ?thesis
    proof (cases "getsize w p")
      case (Inl e1)
      with True show ?thesis by (simp add: parse_elv_file_def try_block_def Let_def q)
    next
      case (Inr n1)
      show ?thesis
      proof (cases "read_file w p")
        case (Inl e1)
        with True Inr show ?thesis by (simp add: parse_elv_file_def try_block_def Let_def q)
      next
        case d1: (Inr d1)
        show ?thesis
        proof (cases "length d1 < 8 \<or> take 4 d1 \<noteq> ''ELVD''")
          case bad: True
          with True Inr d1 show ?thesis
            by (auto simp: parse_elv_file_def try_block_def Let_def q)
        next
          case good: False
          with True Inr d1 show ?thesis
            by (auto simp: parse_elv_file_def try_block_def Let_def q pa len nil)
        qed
      qed
    qed
  qed
qed

section \<open>The claims\<close>

text \<open>
  C4 (the fill loop always terminates).  The loop does not terminate when every loaded
  clip is empty: a WAV file with zero frames is decoded to an empty array, which is not
  \<open>None\<close>, so the list of clips is not empty, and no pass over it advances the write
  cursor.  Here the fill loop, and with it the whole of \<open>generate_level_music\<close>, is
  evaluated on such a level: the result is \<open>None\<close>, a loop that runs forever.  (Lemma
  \<open>fill_cycles_terminates\<close> shows that one non-empty clip is enough for the loop to
  end with the buffer full.)
\<close>

theorem fill_cycles_empty_clip_runs_forever:
  "fill_cycles [(''EMPTY.WAV'', [])] 1 (replicate 1 0, 0) = None
 \<and> generate_for_level (\<lambda>name. Some [])
      (Some \<lparr>level_filename = ''L.ELV'', level_audio_count = 1,
              level_audio_files = [\<lparr>entry_filename = ''EMPTY.WAV'',
                                     entry_file_type = Some ''numbered_rhythm'',
                                     entry_sequence_position = Some 0\<rparr>]\<rparr>) 30 = None"
proof -
  have 1: "fill_cycles [(''EMPTY.WAV'', [])] 1 (replicate 1 0, 0) = None"
    by (rule fill_cycles_empty_clips) simp_all
  have "(0::int) < int_of_float (30 * real target_sample_rate)"
    by (simp add: int_of_float_def target_sample_rate_def)
  then have "compose_music [(''EMPTY.WAV'', [])] 30 = None"
    by (intro compose_music_empty_clips) simp_all
  then have 2: "generate_for_level (\<lambda>name. Some [])
      (Some \<lparr>level_filename = ''L.ELV'', level_audio_count = 1,
              level_audio_files = [\<lparr>entry_filename = ''EMPTY.WAV'',
                                     entry_file_type = Some ''numbered_rhythm'',
                                     entry_sequence_position = Some 0\<rparr>]\<rparr>) 30 = None"
    by (simp add: generate_for_level_def)
  from 1 2 show ?thesis by blast
qed

text \<open>
  C6 (the availability resolver), as amended.  A name whose uppercase form is in the
  inventory is found under that form.  Otherwise a name longer than 4 characters whose
  first character is a digit in the sense of \<open>str.isdigit\<close> is tried once more without
  its first character, and found under the uppercase form of the rest when that is in
  the inventory.  In every other case the name is not found, and the report generator
  returns the zero metadata.  On a first character that is ASCII, \<open>str.isdigit\<close> is the
  test for an ASCII digit, and the resolver returns what the specification words.  For
  \<open>6970RHYTH.WAV\<close>: found as \<open>970RHYTH.WAV\<close> when only that is in the inventory, not
  found when neither is.  Both copies of \<open>_check_audio_file_exists\<close> are covered, for
  every character database.
\<close>

theorem check_audio_file_exists_resolution:
  "(str_upper db f \<in> avail \<longrightarrow>
       check_audio_file_exists db avail f = (True, Some (str_upper db f)))
 \<and> (str_upper db f \<notin> avail \<and> 4 < length f \<and> str_isdigit db (hd f)
       \<and> str_upper db (tl f) \<in> avail \<longrightarrow>
       check_audio_file_exists db avail f = (True, Some (str_upper db (tl f))))
 \<and> (str_upper db f \<notin> avail
       \<and> \<not> (4 < length f \<and> str_isdigit db (hd f) \<and> str_upper db (tl f) \<in> avail) \<longrightarrow>
       check_audio_file_exists db avail f = (False, None))
 \<and> (info (str_upper db f) = Some m \<longrightarrow>
       check_audio_file_exists_info db info f = (True, Some (str_upper db f), m))
 \<and> (info (str_upper db f) = None \<and> 4 < length f \<and> str_isdigit db (hd f)
       \<and> info (str_upper db (tl f)) = Some m \<longrightarrow>
       check_audio_file_exists_info db info f = (True, Some (str_upper db (tl f)), m))
 \<and> (info (str_upper db f) = None
       \<and> \<not> (4 < length f \<and> str_isdigit db (hd f) \<and> info (str_upper db (tl f)) \<noteq> None) \<longrightarrow>
       check_audio_file_exists_info db info f = (False, None, \<lparr>duration = 0, size_kb = 0\<rparr>))
 \<and> (hd f < 128 \<longrightarrow> str_isdigit db (hd f) = (48 \<le> hd f \<and> hd f \<le> 57))
 \<and> (hd f < 128 \<longrightarrow> check_audio_file_exists db avail f = resolve_by_spec db avail f)
 \<and> (unicode_of ''970RHYTH.WAV'' \<in> avail \<and> unicode_of ''6970RHYTH.WAV'' \<notin> avail \<longrightarrow>
       check_audio_file_exists db avail (unicode_of ''6970RHYTH.WAV'')
         = (True, Some (unicode_of ''970RHYTH.WAV'')))
 \<and> (unicode_of ''970RHYTH.WAV'' \<notin> avail \<and> unicode_of ''6970RHYTH.WAV'' \<notin> avail \<longrightarrow>
       check_audio_file_exists db avail (unicode_of ''6970RHYTH.WAV'') = (False, None))
 \<and> (info (unicode_of ''970RHYTH.WAV'') = Some m \<and> info (unicode_of ''6970RHYTH.WAV'') = None \<longrightarrow>
       check_audio_file_exists_info db info (unicode_of ''6970RHYTH.WAV'')
         = (True, Some (unicode_of ''970RHYTH.WAV''), m))
 \<and> (info (unicode_of ''970RHYTH.WAV'') = None \<and> info (unicode_of ''6970RHYTH.WAV'') = None \<longrightarrow>
       check_audio_file_exists_info db info (unicode_of ''6970RHYTH.WAV'')
         = (False, None, \<lparr>duration = 0, size_kb = 0\<rparr>))"
proof -
  have general:
    "(str_upper db f \<in> avail \<longrightarrow>
       check_audio_file_exists db avail f = (True, Some (str_upper db f)))
   \<and> (str_upper db f \<notin> avail \<and> 4 < length f \<and> str_isdigit db (hd f)
       \<and> str_upper db (tl f) \<in> avail \<longrightarrow>
       check_audio_file_exists db avail f = (True, Some (str_upper db (tl f))))
   \<and> (str_upper db f \<notin> avail
       \<and> \<not> (4 < length f \<and> str_isdigit db (hd f) \<and> str_upper db (tl f) \<in> avail) \<longrightarrow>
       check_audio_file_exists db avail f = (False, None))
   \<and> (info (str_upper db f) = Some m \<longrightarrow>
       check_audio_file_exists_info db info f = (True, Some (str_upper db f), m))
   \<and> (info (str_upper db f) = None \<and> 4 < length f \<and> str_isdigit db (hd f)
       \<and> info (str_upper db (tl f)) = Some m \<longrightarrow>
       check_audio_file_exists_info db info f = (True, Some (str_upper db (tl f)), m))
   \<and> (info (str_upper db f) = None
       \<and> \<not> (4 < length f \<and> str_isdigit db (hd f) \<and> info (str_upper db (tl f)) \<noteq> None) \<longrightarrow>
       check_audio_file_exists_info db info f = (False, None, \<lparr>duration = 0, size_kb = 0\<rparr>))"
    for f
    by (auto simp: check_audio_file_exists_def check_audio_file_exists_info_def Let_def
        split: option.splits)
  have digit: "hd f < 128 \<longrightarrow> str_isdigit db (hd f) = (48 \<le> hd f \<and> hd f \<le> 57)"
    by (simp add: str_isdigit_def)
  have spec: "hd f < 128 \<longrightarrow> check_audio_file_exists db avail f = resolve_by_spec db avail f"
    by (simp add: check_audio_file_exists_def resolve_by_spec_def Let_def str_isdigit_def)
  note ex = general [of "unicode_of ''6970RHYTH.WAV''"]
  have examples:
    "(unicode_of ''970RHYTH.WAV'' \<in> avail \<and> unicode_of ''6970RHYTH.WAV'' \<notin> avail \<longrightarrow>
       check_audio_file_exists db avail (unicode_of ''6970RHYTH.WAV'')
         = (True, Some (unicode_of ''970RHYTH.WAV'')))
   \<and> (unicode_of ''970RHYTH.WAV'' \<notin> avail \<and> unicode_of ''6970RHYTH.WAV'' \<notin> avail \<longrightarrow>
       check_audio_file_exists db avail (unicode_of ''6970RHYTH.WAV'') = (False, None))
   \<and> (info (unicode_of ''970RHYTH.WAV'') = Some m \<and> info (unicode_of ''6970RHYTH.WAV'') = None \<longrightarrow>
       check_audio_file_exists_info db info (unicode_of ''6970RHYTH.WAV'')
         = (True, Some (unicode_of ''970RHYTH.WAV''), m))
   \<and> (info (unicode_of ''970RHYTH.WAV'') = None \<and> info (unicode_of ''6970RHYTH.WAV'') = None \<longrightarrow>
       check_audio_file_exists_info db info (unicode_of ''6970RHYTH.WAV'')
         = (False, None, \<lparr>duration = 0, size_kb = 0\<rparr>))"
    using ex by (simp add: str_upper_ascii_upper)
  from general [of f] digit spec examples show ?thesis by blast
qed

theorem check_audio_file_exists_resolution_witness:
  "check_audio_file_exists latin1_db {unicode_of ''970RHYTH.WAV''} (unicode_of ''6970rhyth.wav'')
     = (True, Some (unicode_of ''970RHYTH.WAV''))
 \<and> check_audio_file_exists latin1_db {unicode_of ''970RHYTH.WAV''} (unicode_of ''970rhyth.wav'')
     = (True, Some (unicode_of ''970RHYTH.WAV''))
 \<and> check_audio_file_exists latin1_db {unicode_of ''NOSOUND.WAV''} (unicode_of ''6970RHYTH.WAV'')
     = (False, None)
 \<and> check_audio_file_exists latin1_db {unicode_of ''970RHYTH.WAV''} (unicode_of ''6970rhyth.wav'')
     = resolve_by_spec latin1_db {unicode_of ''970RHYTH.WAV''} (unicode_of ''6970rhyth.wav'')
 \<and> check_audio_file_exists_info latin1_db
      [unicode_of ''970RHYTH.WAV'' \<mapsto> \<lparr>duration = 2, size_kb = 172\<rparr>] (unicode_of ''6970RHYTH.WAV'')
      = (True, Some (unicode_of ''970RHYTH.WAV''), \<lparr>duration = 2, size_kb = 172\<rparr>)
 \<and> check_audio_file_exists_info latin1_db Map.empty (unicode_of ''6970RHYTH.WAV'')
      = (False, None, \<lparr>duration = 0, size_kb = 0\<rparr>)"
proof -
  let ?m = "\<lparr>duration = 2, size_kb = 172\<rparr>"
  have u: "str_upper latin1_db (unicode_of ''6970rhyth.wav'') = unicode_of ''6970RHYTH.WAV''"
    "str_upper latin1_db (unicode_of ''970rhyth.wav'') = unicode_of ''970RHYTH.WAV''"
    "str_upper latin1_db (tl (unicode_of ''6970rhyth.wav'')) = unicode_of ''970RHYTH.WAV''"
    "str_isdigit latin1_db (hd (unicode_of ''6970rhyth.wav''))"
    "hd (unicode_of ''6970rhyth.wav'') < 128"
    "4 < length (unicode_of ''6970rhyth.wav'')"
    "unicode_of ''6970RHYTH.WAV'' \<noteq> unicode_of ''970RHYTH.WAV''"
    "unicode_of ''6970RHYTH.WAV'' \<noteq> unicode_of ''NOSOUND.WAV''"
    "unicode_of ''970RHYTH.WAV'' \<noteq> unicode_of ''NOSOUND.WAV''"
    by (simp_all add: str_upper_def upper_code_def unicode_of_def str_isdigit_def)
  note a = check_audio_file_exists_resolution
      [of latin1_db "unicode_of ''6970rhyth.wav''" "{unicode_of ''970RHYTH.WAV''}" Map.empty ?m]
  note b = check_audio_file_exists_resolution
      [of latin1_db "unicode_of ''970rhyth.wav''" "{unicode_of ''970RHYTH.WAV''}" Map.empty ?m]
  note c = check_audio_file_exists_resolution
      [of latin1_db "[]" "{unicode_of ''NOSOUND.WAV''}"
          "[unicode_of ''970RHYTH.WAV'' \<mapsto> ?m]" ?m]
  note e = check_audio_file_exists_resolution [of latin1_db "[]" "{}" Map.empty ?m]
  from a u have 1: "check_audio_file_exists latin1_db {unicode_of ''970RHYTH.WAV''}
      (unicode_of ''6970rhyth.wav'') = (True, Some (unicode_of ''970RHYTH.WAV''))"
    by simp
  from b u have 2: "check_audio_file_exists latin1_db {unicode_of ''970RHYTH.WAV''}
      (unicode_of ''970rhyth.wav'') = (True, Some (unicode_of ''970RHYTH.WAV''))"
    by simp
  from c u have 3: "check_audio_file_exists latin1_db {unicode_of ''NOSOUND.WAV''}
      (unicode_of ''6970RHYTH.WAV'') = (False, None)"
    by simp
  from a u have 4: "check_audio_file_exists latin1_db {unicode_of ''970RHYTH.WAV''}
      (unicode_of ''6970rhyth.wav'')
      = resolve_by_spec latin1_db {unicode_of ''970RHYTH.WAV''} (unicode_of ''6970rhyth.wav'')"
    by blast
  from c u have 5: "check_audio_file_exists_info latin1_db
      [unicode_of ''970RHYTH.WAV'' \<mapsto> ?m] (unicode_of ''6970RHYTH.WAV'')
      = (True, Some (unicode_of ''970RHYTH.WAV''), ?m)"
    by simp
  from e have 6: "check_audio_file_exists_info latin1_db Map.empty (unicode_of ''6970RHYTH.WAV'')
      = (False, None, \<lparr>duration = 0, size_kb = 0\<rparr>)"
    by simp
  from 1 2 3 4 5 6 show ?thesis by blast
qed

text \<open>
  C6 as stated fails: the fallback is not limited to the ASCII digits.  The superscript
  two \<open>U+00B2\<close> is a digit for \<open>str.isdigit\<close>, so the name made of it and
  \<open>970RHYTH.WAV\<close> is found as \<open>970RHYTH.WAV\<close> by both copies of the resolver, where
  the resolver of the specification does not find it.
\<close>

theorem check_audio_file_exists_counterexample:
  "check_audio_file_exists latin1_db {unicode_of ''970RHYTH.WAV''} (178 # unicode_of ''970RHYTH.WAV'')
     = (True, Some (unicode_of ''970RHYTH.WAV''))
 \<and> resolve_by_spec latin1_db {unicode_of ''970RHYTH.WAV''} (178 # unicode_of ''970RHYTH.WAV'')
     = (False, None)
 \<and> check_audio_file_exists_info latin1_db
      [unicode_of ''970RHYTH.WAV'' \<mapsto> \<lparr>duration = 2, size_kb = 172\<rparr>]
      (178 # unicode_of ''970RHYTH.WAV'')
     = (True, Some (unicode_of ''970RHYTH.WAV''), \<lparr>duration = 2, size_kb = 172\<rparr>)"
  by (simp add: check_audio_file_exists_def check_audio_file_exists_info_def resolve_by_spec_def
      latin1_db_def Let_def str_upper_def upper_code_def unicode_of_def str_isdigit_def)

text \<open>
  C7 (the parser never raises).  \<open>parse_elv_file\<close> prints the name of the file before
  its \<open>try\<close> block, in a line that starts with the character \<open>U+1F50D\<close>.  When
  the standard output cannot encode that line, the \<open>UnicodeEncodeError\<close> of \<open>print\<close>
  leaves the function, and no record is returned: on a UTF-8 standard output for a
  file in \<open>ELVRL\<close> whose name is the lone surrogate \<open>U+DCFF\<close> and \<open>.ELV\<close> (the name
  that \<open>os.listdir\<close> gives to a file whose name starts with the byte 255), whether
  the file is a well-formed level or missing; and on a Latin-1 standard output for the
  path \<open>ELVRL/A.ELV\<close>.  (Lemma
  \<open>parse_elv_file_quiet_stdout\<close>: when no \<open>print\<close> raises, every failure is captured
  in the record.)
\<close>

theorem parse_elv_file_raises_on_print:
  "parse_elv_file
     \<lparr>path_exists = (\<lambda>p. True), getsize = (\<lambda>p. Inr 19),
       read_file = (\<lambda>p. Inr (''ELVD'' @ [CHR 0x01, CHR 0x00, CHR 0x00, CHR 0x00] @ ''12rhyth.wav'')),
       print_line = utf8_stdout\<rparr>
     latin1_db {} (unicode_of ''2024-01-01T00:00:00'')
     (unicode_of ''ELVRL/'' @ [0xDCFF] @ unicode_of ''.ELV'')
     = Inl (UnicodeEncodeError (unicode_of ''surrogates not allowed''))
 \<and> parse_elv_file
     \<lparr>path_exists = (\<lambda>p. False), getsize = (\<lambda>p. Inl (OSError [])),
       read_file = (\<lambda>p. Inl (OSError [])), print_line = utf8_stdout\<rparr>
     latin1_db {} (unicode_of ''2024-01-01T00:00:00'')
     (unicode_of ''ELVRL/'' @ [0xDCFF] @ unicode_of ''.ELV'')
     = Inl (UnicodeEncodeError (unicode_of ''surrogates not allowed''))
 \<and> parse_elv_file
     \<lparr>path_exists = (\<lambda>p. True), getsize = (\<lambda>p. Inr 19),
       read_file = (\<lambda>p. Inr (''ELVD'' @ [CHR 0x01, CHR 0x00, CHR 0x00, CHR 0x00] @ ''12rhyth.wav'')),
       print_line = latin1_stdout\<rparr>
     latin1_db {} (unicode_of ''2024-01-01T00:00:00'') (unicode_of ''ELVRL/A.ELV'')
     = Inl (UnicodeEncodeError (unicode_of ''ordinal not in range(256)''))"
proof (intro conjI)
  show "parse_elv_file
     \<lparr>path_exists = (\<lambda>p. True), getsize = (\<lambda>p. Inr 19),
       read_file = (\<lambda>p. Inr (''ELVD'' @ [CHR 0x01, CHR 0x00, CHR 0x00, CHR 0x00] @ ''12rhyth.wav'')),
       print_line = utf8_stdout\<rparr>
     latin1_db {} (unicode_of ''2024-01-01T00:00:00'')
     (unicode_of ''ELVRL/'' @ [0xDCFF] @ unicode_of ''.ELV'')
     = Inl (UnicodeEncodeError (unicode_of ''surrogates not allowed''))"
    by (rule parse_elv_file_first_print_raises)
       (simp add: utf8_stdout_def parsing_line_def basename_def unicode_of_def)
  show "parse_elv_file
     \<lparr>path_exists = (\<lambda>p. False), getsize = (\<lambda>p. Inl (OSError [])),
       read_file = (\<lambda>p. Inl (OSError [])), print_line = utf8_stdout\<rparr>
     latin1_db {} (unicode_of ''2024-01-01T00:00:00'')
     (unicode_of ''ELVRL/'' @ [0xDCFF] @ unicode_of ''.ELV'')
     = Inl (UnicodeEncodeError (unicode_of ''surrogates not allowed''))"
    by (rule parse_elv_file_first_print_raises)
       (simp add: utf8_stdout_def parsing_line_def basename_def unicode_of_def)
  show "parse_elv_file
     \<lparr>path_exists = (\<lambda>p. True), getsize = (\<lambda>p. Inr 19),
       read_file = (\<lambda>p. Inr (''ELVD'' @ [CHR 0x01, CHR 0x00, CHR 0x00, CHR 0x00] @ ''12rhyth.wav'')),
       print_line = latin1_stdout\<rparr>
     latin1_db {} (unicode_of ''2024-01-01T00:00:00'') (unicode_of ''ELVRL/A.ELV'')
     = Inl (UnicodeEncodeError (unicode_of ''ordinal not in range(256)''))"
    by (rule parse_elv_file_first_print_raises)
       (simp add: latin1_stdout_def parsing_line_def basename_def unicode_of_def)
qed

text \<open>
  C8 (peak normalisation).  For a buffer that is not empty: when its peak absolute
  amplitude is above 1, every sample is multiplied by the reciprocal of the peak and the
  peak of the result is exactly 1; when the peak is at most 1, the buffer is returned
  as it is.  Samples are real numbers here.
\<close>

theorem normalize_peak:
  assumes "buf \<noteq> []"
  shows "(1 < Max (abs ` set buf) \<longrightarrow>
            normalize buf = Inr (map (\<lambda>x. x * (1 / Max (abs ` set buf))) buf)
          \<and> (\<exists>out. normalize buf = Inr out \<and> Max (abs ` set out) = 1))
       \<and> (Max (abs ` set buf) \<le> 1 \<longrightarrow> normalize buf = Inr buf)"
proof -
  let ?m = "Max (abs ` set buf)"
  have n: "normalize buf = (if 1 < ?m then Inr (map (\<lambda>x. x / ?m) buf) else Inr buf)"
    using assms by (simp add: normalize_def max_abs_Max)
  have "normalize buf = Inr (map (\<lambda>x. x * (1 / ?m)) buf)
      \<and> (\<exists>out. normalize buf = Inr out \<and> Max (abs ` set out) = 1)" if "1 < ?m"
  proof -
    from that have "0 < ?m" by linarith
    then have p: "Max (abs ` set (map (\<lambda>x. x / ?m) buf)) = 1"
      by (rule scaled_peak [OF assms])
    from n that have e: "normalize buf = Inr (map (\<lambda>x. x / ?m) buf)"
      by (simp only: if_True)
    have "map (\<lambda>x. x / ?m) buf = map (\<lambda>x. x * (1 / ?m)) buf"
      by simp
    with e p show ?thesis by metis
  qed
  moreover have "normalize buf = Inr buf" if "?m \<le> 1"
  proof -
    from that have "\<not> 1 < ?m" by linarith
    with n show ?thesis by (simp only: if_False)
  qed
  ultimately show ?thesis by blast
qed

theorem normalize_peak_witness:
  "normalize [3 / 2, - 1 / 2] = Inr [1, - 1 / 3]
 \<and> normalize [3 / 5, - 3 / 10] = Inr [3 / 5, - 3 / 10]"
proof -
  have m1: "Max (abs ` set [3 / 2, - 1 / 2 :: real]) = 3 / 2" by simp
  have m2: "Max (abs ` set [3 / 5, - 3 / 10 :: real]) = 3 / 5" by simp
  have "[3 / 2, - 1 / 2 :: real] \<noteq> []" by simp
  from normalize_peak [OF this] have 1: "normalize [3 / 2, - 1 / 2] = Inr [1, - 1 / 3]"
    unfolding m1 by simp
  have "[3 / 5, - 3 / 10 :: real] \<noteq> []" by simp
  from normalize_peak [OF this] have 2: "normalize [3 / 5, - 3 / 10] = Inr [3 / 5, - 3 / 10]"
    unfolding m2 by simp
  from 1 2 show ?thesis by blast
qed

text \<open>
  C10 (no overflow in the 16-bit conversion).  Every sample of a buffer returned by
  \<open>generate_level_music\<close> lies in the closed interval from -1 to 1, so its product
  with 32767, truncated towards zero, lies between -32768 and 32767, and the 16-bit
  word that \<open>save_music\<close> writes, read as a signed number, is that very integer.
\<close>

theorem generate_level_music_in_range:
  assumes "generate_level_music load files name d = Some (Inr (Some buf))"
  shows "(\<forall>x \<in> set buf. - 1 \<le> x \<and> x \<le> 1)
       \<and> (\<forall>x \<in> set buf. - 32768 \<le> int_of_float (x * 32767) \<and> int_of_float (x * 32767) \<le> 32767)
       \<and> map sint (convert_to_16bit buf) = map (\<lambda>x. int_of_float (x * 32767)) buf"
proof -
  have b: "\<bar>x\<bar> \<le> 1" if "x \<in> set buf" for x
    using assms that unfolding generate_level_music_def by (rule generate_for_level_bounded)
  have "- 1 \<le> x \<and> x \<le> 1" if "x \<in> set buf" for x
    using b [OF that] by (simp add: abs_le_iff)
  moreover have "- 32768 \<le> int_of_float (x * 32767) \<and> int_of_float (x * 32767) \<le> 32767"
    if "x \<in> set buf" for x
    using int_of_float_scaled [OF b [OF that]] by simp
  moreover have "map sint (convert_to_16bit buf) = map (\<lambda>x. int_of_float (x * 32767)) buf"
    unfolding convert_to_16bit_def by (simp add: sint_astype_int16 b)
  ultimately show ?thesis by blast
qed

theorem generate_level_music_in_range_witness:
  "generate_level_music (\<lambda>n. if n = ''A.WAV'' then Some [1 / 2, 3] else None)
     (Some [\<lparr>level_filename = ''L.ELV'', level_audio_count = 1,
             level_audio_files = [\<lparr>entry_filename = ''A.WAV'',
                                    entry_file_type = Some ''letter_rhythm'',
                                    entry_sequence_position = Some 0\<rparr>]\<rparr>])
     ''l.elv'' (3 / 44100) = Some (Inr (Some [1 / 6, 1, 1 / 6]))
 \<and> map sint (convert_to_16bit [1 / 6, 1, 1 / 6]) = [5461, 32767, 5461]"
proof -
  have u: "upper ''L.ELV'' = upper ''l.elv''"
    by (simp add: upper_def upper_char_def ascii_lowercase_def ascii_uppercase_def)
  have g: "generate_level_music (\<lambda>n. if n = ''A.WAV'' then Some [1 / 2, 3] else None)
     (Some [\<lparr>level_filename = ''L.ELV'', level_audio_count = 1,
             level_audio_files = [\<lparr>entry_filename = ''A.WAV'',
                                    entry_file_type = Some ''letter_rhythm'',
                                    entry_sequence_position = Some 0\<rparr>]\<rparr>])
     ''l.elv'' (3 / 44100) = Some (Inr (Some [1 / 6, 1, 1 / 6]))"
    by (simp add: generate_level_music_def get_level_info_def u generate_for_level_def
        compose_music_def sequence_key_def target_sample_rate_def int_of_float_def
        fill_cycles.simps normalize_def max_abs_def)
  from generate_level_music_in_range [OF g]
  have "map sint (convert_to_16bit [1 / 6, 1, 1 / 6]) = [5461, 32767, 5461]"
    by (simp add: int_of_float_def)
  with g show ?thesis by blast
qed

text \<open>
  C3 (the invariants of an audio sequence).  For every blob, the records built from
  the deduplicated, sorted matches carry the sequence positions 0, 1, ... in list order,
  the offsets and names of the sequence, strictly increasing offsets and pairwise
  different names; and every entry of the sequence is a match of the scanner whose
  offset is the lowest one at which the scanner matched that name.
\<close>

theorem audio_sequence_invariants:
  "map sequence_position (process_audio_files db av 0 (extract_audio_sequence_from_data data))
     = [0..<length (extract_audio_sequence_from_data data)]
 \<and> map binary_offset (process_audio_files db av 0 (extract_audio_sequence_from_data data))
     = map snd (extract_audio_sequence_from_data data)
 \<and> map filename (process_audio_files db av 0 (extract_audio_sequence_from_data data))
     = map fst (extract_audio_sequence_from_data data)
 \<and> sorted_wrt (<) (map binary_offset
       (process_audio_files db av 0 (extract_audio_sequence_from_data data)))
 \<and> distinct (map filename (process_audio_files db av 0 (extract_audio_sequence_from_data data)))
 \<and> (\<forall>(f, p) \<in> set (extract_audio_sequence_from_data data).
       (f, p) \<in> set (all_matches (decode_ascii_ignore data))
       \<and> (\<forall>q. (f, q) \<in> set (all_matches (decode_ascii_ignore data)) \<longrightarrow> p \<le> q))"
proof -
  let ?ms = "all_matches (decode_ascii_ignore data)"
  let ?sorted = "sort_key snd ?ms"
  let ?seq = "extract_audio_sequence_from_data data"
  have seq: "?seq = remove_duplicates {} ?sorted"
    by (simp add: extract_audio_sequence_from_data_def)
  have s: "sorted (map snd ?sorted)" by simp
  have set_eq: "set ?sorted = set ?ms" by simp
  have u: "\<And>f g q. (f, q) \<in> set ?sorted \<Longrightarrow> (g, q) \<in> set ?sorted \<Longrightarrow> f = g"
    unfolding set_eq by (rule all_matches_same_position)
  note fields = process_audio_files_fields [of db av 0 ?seq]
  have strict: "sorted_wrt (<) (map snd ?seq)"
    unfolding seq by (rule remove_duplicates_strict [OF s u])
  have dist: "distinct (map fst ?seq)"
    unfolding seq by (rule remove_duplicates_distinct)
  have low: "(f, p) \<in> set ?ms \<and> (\<forall>q. (f, q) \<in> set ?ms \<longrightarrow> p \<le> q)"
    if "(f, p) \<in> set ?seq" for f p
  proof -
    from that have m: "(f, p) \<in> set (remove_duplicates {} ?sorted)" by (simp only: seq)
    from remove_duplicates_subset [OF m] set_eq have "(f, p) \<in> set ?ms" by simp
    moreover have "p \<le> q" if "(f, q) \<in> set ?ms" for q
      using remove_duplicates_first [OF s m] that set_eq by simp
    ultimately show ?thesis by blast
  qed
  have all_low: "\<forall>(f, p) \<in> set ?seq. (f, p) \<in> set ?ms \<and> (\<forall>q. (f, q) \<in> set ?ms \<longrightarrow> p \<le> q)"
    using low by blast
  from fields strict dist have "map sequence_position (process_audio_files db av 0 ?seq) = [0..<length ?seq]
      \<and> map binary_offset (process_audio_files db av 0 ?seq) = map snd ?seq
      \<and> map filename (process_audio_files db av 0 ?seq) = map fst ?seq
      \<and> sorted_wrt (<) (map binary_offset (process_audio_files db av 0 ?seq))
      \<and> distinct (map filename (process_audio_files db av 0 ?seq))"
    by simp
  with all_low show ?thesis by blast
qed

theorem audio_sequence_invariants_witness:
  "extract_audio_sequence_from_data
     (''ELVD'' @ [CHR 0x01, CHR 0x00, CHR 0x00, CHR 0x00] @ ''12rhyth.wav'' @ [CHR 0x00]
        @ ''nosound.wav 12RHYTH.WAV'')
     = [(''12RHYTH.WAV'', 8), (''NOSOUND.WAV'', 20)]
 \<and> map sequence_position (process_audio_files latin1_db {} 0 (extract_audio_sequence_from_data
     (''ELVD'' @ [CHR 0x01, CHR 0x00, CHR 0x00, CHR 0x00] @ ''12rhyth.wav'' @ [CHR 0x00]
        @ ''nosound.wav 12RHYTH.WAV''))) = [0, 1]
 \<and> sorted_wrt (<) (map binary_offset (process_audio_files latin1_db {} 0 (extract_audio_sequence_from_data
     (''ELVD'' @ [CHR 0x01, CHR 0x00, CHR 0x00, CHR 0x00] @ ''12rhyth.wav'' @ [CHR 0x00]
        @ ''nosound.wav 12RHYTH.WAV''))))
 \<and> (''12RHYTH.WAV'', 32) \<in> set (all_matches (decode_ascii_ignore
     (''ELVD'' @ [CHR 0x01, CHR 0x00, CHR 0x00, CHR 0x00] @ ''12rhyth.wav'' @ [CHR 0x00]
        @ ''nosound.wav 12RHYTH.WAV'')))"
proof -
  let ?blob = "''ELVD'' @ [CHR 0x01, CHR 0x00, CHR 0x00, CHR 0x00] @ ''12rhyth.wav'' @ [CHR 0x00]
        @ ''nosound.wav 12RHYTH.WAV''"
  have e: "extract_audio_sequence_from_data ?blob = [(''12RHYTH.WAV'', 8), (''NOSOUND.WAV'', 20)]"
    by code_simp
  have m: "(''12RHYTH.WAV'', 32) \<in> set (all_matches (decode_ascii_ignore ?blob))"
    by code_simp
  from audio_sequence_invariants [of latin1_db "{}" ?blob]
  have "map sequence_position (process_audio_files latin1_db {} 0 (extract_audio_sequence_from_data ?blob))
          = [0..<length (extract_audio_sequence_from_data ?blob)]"
    and "sorted_wrt (<) (map binary_offset
          (process_audio_files latin1_db {} 0 (extract_audio_sequence_from_data ?blob)))"
    by blast+
  with e m show ?thesis by (simp add: upt_rec)
qed

text \<open>
  C1 (recorded offsets are byte offsets of the blob).  The decoder drops every byte
  of 128 or more instead of putting a placeholder in its place, so recorded offsets
  count characters of the decoded text.  On the 11-byte blob \<open>\xff1rhyth.wav\<close> the
  scanner records the token at offset 0 although it starts at byte 1 of the blob; and
  on \<open>1rhy\xffth.wav\<close> the dropped byte lets the two halves around it match as one
  token.  In a level file whose byte 8 is \<open>\xff\<close> and whose token starts at byte 9,
  the parser stores the offset 8.  (Lemma \<open>extract_offsets_in_decoded_text\<close>: every
  recorded offset is the place of the token in the decoded text.)  The scanner is a
  total function: it returns a list for every blob.
\<close>

theorem extract_offset_shifted_by_dropped_byte:
  "extract_audio_sequence_from_data (CHR 0xFF # ''1rhyth.wav'') = [(''1RHYTH.WAV'', 0)]
 \<and> upper (take 10 (drop 0 (CHR 0xFF # ''1rhyth.wav''))) \<noteq> ''1RHYTH.WAV''
 \<and> upper (take 10 (drop 1 (CHR 0xFF # ''1rhyth.wav''))) = ''1RHYTH.WAV''
 \<and> extract_audio_sequence_from_data (''1rhy'' @ [CHR 0xFF] @ ''th.wav'') = [(''1RHYTH.WAV'', 0)]
 \<and> (case parse_elv_file
       \<lparr>path_exists = (\<lambda>p. True), getsize = (\<lambda>p. Inr 19),
         read_file = (\<lambda>p. Inr (''ELVD'' @ [CHR 0x01, CHR 0x00, CHR 0x00, CHR 0x00, CHR 0xFF]
                                   @ ''1rhyth.wav'')),
         print_line = (\<lambda>line. Inr ())\<rparr> latin1_db {} (unicode_of ''t'') (unicode_of ''A.ELV'') of
      Inl e \<Rightarrow> None
    | Inr file_info \<Rightarrow> Some (map binary_offset (audio_files file_info))) = Some [8]
 \<and> upper (take 10 (drop 9 (''ELVD'' @ [CHR 0x01, CHR 0x00, CHR 0x00, CHR 0x00, CHR 0xFF]
                                   @ ''1rhyth.wav''))) = ''1RHYTH.WAV''"
proof -
  have 5: "(case parse_elv_file
       \<lparr>path_exists = (\<lambda>p. True), getsize = (\<lambda>p. Inr 19),
         read_file = (\<lambda>p. Inr (''ELVD'' @ [CHR 0x01, CHR 0x00, CHR 0x00, CHR 0x00, CHR 0xFF]
                                   @ ''1rhyth.wav'')),
         print_line = (\<lambda>line. Inr ())\<rparr> latin1_db {} (unicode_of ''t'') (unicode_of ''A.ELV'') of
      Inl e \<Rightarrow> None
    | Inr file_info \<Rightarrow> Some (map binary_offset (audio_files file_info))) = Some [8]
    \<and> upper (take 10 (drop 9 (''ELVD'' @ [CHR 0x01, CHR 0x00, CHR 0x00, CHR 0x00, CHR 0xFF]
                                   @ ''1rhyth.wav''))) = ''1RHYTH.WAV''"
  proof -
    let ?d = "''ELVD'' @ [CHR 0x01, CHR 0x00, CHR 0x00, CHR 0x00, CHR 0xFF] @ ''1rhyth.wav''"
    let ?w = "\<lparr>path_exists = (\<lambda>p. True), getsize = (\<lambda>p. Inr 19),
         read_file = (\<lambda>p. Inr ?d), print_line = (\<lambda>line. Inr ())\<rparr>"
    have e: "extract_audio_sequence_from_data ?d = [(''1RHYTH.WAV'', 8)]"
      by code_simp
    have u: "upper (take 10 (drop 9 ?d)) = ''1RHYTH.WAV''"
      by code_simp
    have "print_line ?w line = Inr ()" for line by simp
    from parse_elv_file_quiet_stdout
        [of ?w latin1_db "{}" "unicode_of ''t''" "unicode_of ''A.ELV''" 19 ?d, OF this]
    obtain r where r: "parse_elv_file ?w latin1_db {} (unicode_of ''t'') (unicode_of ''A.ELV'') = Inr r"
      and a: "audio_files r
                = process_audio_files latin1_db {} 0 (extract_audio_sequence_from_data ?d)"
      by auto
    from a process_audio_files_fields [of latin1_db "{}" 0 "extract_audio_sequence_from_data ?d"]
    have "map binary_offset (audio_files r) = [8]"
      by (simp only: e) simp
    with r u show ?thesis by (simp only: sum.case)
  qed
  have 1: "extract_audio_sequence_from_data (CHR 0xFF # ''1rhyth.wav'') = [(''1RHYTH.WAV'', 0)]"
    by code_simp
  have 2: "upper (take 10 (drop 0 (CHR 0xFF # ''1rhyth.wav''))) \<noteq> ''1RHYTH.WAV''"
    by (simp add: upper_def upper_char_def ascii_lowercase_def ascii_uppercase_def)
  have 3: "upper (take 10 (drop 1 (CHR 0xFF # ''1rhyth.wav''))) = ''1RHYTH.WAV''"
    by (simp add: upper_def upper_char_def ascii_lowercase_def ascii_uppercase_def)
  have 4: "extract_audio_sequence_from_data (''1rhy'' @ [CHR 0xFF] @ ''th.wav'')
             = [(''1RHYTH.WAV'', 0)]"
    by code_simp
  from 1 2 3 4 5 show ?thesis by blast
qed

text \<open>
  C2 (two clips in a buffer of five seconds), as amended.  With a clip \<open>A\<close> of two
  seconds and a clip \<open>B\<close> of one second at the target rate, a target of 5 seconds is
  filled with \<open>A\<close>, \<open>B\<close>, \<open>A\<close>: 5 seconds exactly, the second \<open>A\<close> ends the buffer and
  nothing is cut.  A target of 4 seconds is filled with \<open>A\<close>, \<open>B\<close> and the first second
  of \<open>A\<close>: the clip that does not fit is cut, not skipped.  When no sample is above 1 in
  absolute value, as for every decoded clip, the normalisation keeps the buffer and these
  are the results of the whole composition.
\<close>

theorem compose_music_two_clips:
  assumes "length A = 2 * target_sample_rate" and "length B = target_sample_rate"
  shows "fill_cycles [(a, A), (b, B)] (5 * target_sample_rate)
           (replicate (5 * target_sample_rate) 0, 0) = Some (A @ B @ A, 5 * target_sample_rate)
       \<and> length (A @ B @ A) = 5 * target_sample_rate
       \<and> ((\<forall>x \<in> set A \<union> set B. \<bar>x\<bar> \<le> 1) \<longrightarrow>
             compose_music [(a, A), (b, B)] 5 = Some (Inr (A @ B @ A)))
       \<and> fill_cycles [(a, A), (b, B)] (4 * target_sample_rate)
           (replicate (4 * target_sample_rate) 0, 0)
             = Some (A @ B @ take target_sample_rate A, 4 * target_sample_rate)
       \<and> ((\<forall>x \<in> set A \<union> set B. \<bar>x\<bar> \<le> 1) \<longrightarrow>
             compose_music [(a, A), (b, B)] 4 = Some (Inr (A @ B @ take target_sample_rate A)))"
proof -
  have r: "0 < target_sample_rate" by (simp add: target_sample_rate_def)
  have "length (A @ B @ A) = 5 * target_sample_rate" using assms by simp
  with fill_two_clips_5 [OF assms r] fill_two_clips_4 [OF assms r]
    compose_two_clips_5 [OF assms] compose_two_clips_4 [OF assms]
  show ?thesis by blast
qed

theorem compose_music_two_clips_witness:
  "compose_music [(''A.WAV'', replicate (2 * target_sample_rate) (1 / 2)),
                  (''B.WAV'', replicate target_sample_rate (1 / 4))] 5
     = Some (Inr (replicate (2 * target_sample_rate) (1 / 2) @ replicate target_sample_rate (1 / 4)
                  @ replicate (2 * target_sample_rate) (1 / 2)))"
proof -
  let ?A = "replicate (2 * target_sample_rate) (1 / 2 :: real)"
  let ?B = "replicate target_sample_rate (1 / 4 :: real)"
  have l: "length ?A = 2 * target_sample_rate" "length ?B = target_sample_rate" by simp_all
  have b: "\<forall>x \<in> set ?A \<union> set ?B. \<bar>x\<bar> \<le> 1" by auto
  from compose_music_two_clips [OF l, of "''A.WAV''" "''B.WAV''"] b show ?thesis by blast
qed

text \<open>
  C2 as stated fails: the claimed contents \<open>A\<close>, \<open>B\<close>, \<open>A\<close>, \<open>B\<close> and one second of
  \<open>A\<close> are 7 seconds long, and the composition of 5 seconds returns \<open>A\<close>, \<open>B\<close>, \<open>A\<close>.
\<close>

theorem compose_music_two_clips_counterexample:
  "compose_music [(''A.WAV'', replicate (2 * target_sample_rate) (1 / 2)),
                  (''B.WAV'', replicate target_sample_rate (1 / 4))] 5
     \<noteq> Some (Inr (replicate (2 * target_sample_rate) (1 / 2) @ replicate target_sample_rate (1 / 4)
                  @ replicate (2 * target_sample_rate) (1 / 2) @ replicate target_sample_rate (1 / 4)
                  @ take target_sample_rate (replicate (2 * target_sample_rate) (1 / 2))))"
proof -
  let ?A = "replicate (2 * target_sample_rate) (1 / 2 :: real)"
  let ?B = "replicate target_sample_rate (1 / 4 :: real)"
  have l: "length ?A = 2 * target_sample_rate" "length ?B = target_sample_rate" by simp_all
  have b: "\<forall>x \<in> set ?A \<union> set ?B. \<bar>x\<bar> \<le> 1" by auto
  have c: "compose_music [(''A.WAV'', ?A), (''B.WAV'', ?B)] 5 = Some (Inr (?A @ ?B @ ?A))"
    by (rule compose_two_clips_5 [OF l b])
  have "length (?A @ ?B @ ?A) \<noteq> length (?A @ ?B @ ?A @ ?B @ take target_sample_rate ?A)"
    by (simp add: target_sample_rate_def)
  then have "?A @ ?B @ ?A \<noteq> ?A @ ?B @ ?A @ ?B @ take target_sample_rate ?A"
    by metis
  with c show ?thesis by simp
qed

text \<open>
  C5 (the level title), as amended.  The bytes after the 8-byte header are decoded
  (bytes of 128 or more dropped) and split at the null characters.  Every fragment is
  cleaned: its characters that are not printable are removed, and the white space at
  both ends is stripped.  The title is the cleaned text, cut to 50 characters, of the
  first fragment whose cleaned text is longer than 10 characters and does not end with
  \<open>.lbm\<close>; there is no title when no fragment passes.
\<close>

theorem extract_level_title_first_clean_fragment:
  "extract_level_title file_data =
     (case find (\<lambda>line. 10 < length (strip (filter isprintable line))
                          \<and> \<not> endswith (strip (filter isprintable line)) ''.lbm'')
                (split_char (CHR 0x00) (decode_ascii_ignore (drop 8 file_data))) of
        None \<Rightarrow> None
      | Some line \<Rightarrow> Some (take 50 (strip (filter isprintable line))))"
  by (simp add: extract_level_title_def title_loop_find)

theorem extract_level_title_first_clean_fragment_witness:
  "extract_level_title (''ELVD'' @ [CHR 0x01, CHR 0x00, CHR 0x00, CHR 0x00] @ ''LEVEL01.lbm''
      @ [CHR 0x00] @ ''short'' @ [CHR 0x00, CHR 0x07] @ '' Level One Title '' @ [CHR 0x00])
     = Some ''Level One Title''"
  unfolding extract_level_title_first_clean_fragment by code_simp

text \<open>
  C5 as stated fails: a fragment with a character that is not printable is not
  rejected but cleaned, and the tests are made on the cleaned text, which is also what
  is returned.
\<close>

theorem extract_level_title_counterexample:
  "extract_level_title (''ELVD'' @ [CHR 0x01, CHR 0x00, CHR 0x00, CHR 0x00]
                          @ [CHR 0x07] @ ''Level One Title'') = Some ''Level One Title''
 \<and> title_by_spec (''ELVD'' @ [CHR 0x01, CHR 0x00, CHR 0x00, CHR 0x00]
                          @ [CHR 0x07] @ ''Level One Title'') = None
 \<and> extract_level_title (''ELVD'' @ [CHR 0x01, CHR 0x00, CHR 0x00, CHR 0x00]
                          @ ''  Hello World  '') = Some ''Hello World''
 \<and> title_by_spec (''ELVD'' @ [CHR 0x01, CHR 0x00, CHR 0x00, CHR 0x00]
                          @ ''  Hello World  '') = Some ''  Hello World  ''"
  by code_simp

text \<open>
  C9 (the order of the stored references does not matter).  Two level records found
  under the same name, with the same audio count and the same audio entries in any
  order, the entries having pairwise different sort keys
  (\<open>x.get('sequence_position', 0)\<close>), give the same result of
  \<open>generate_level_music\<close>, whatever the files on disk and the duration.
\<close>

theorem generate_level_music_order_independent:
  assumes "get_level_info files1 name = Some level1"
    and "get_level_info files2 name = Some level2"
    and "level_audio_count level1 = level_audio_count level2"
    and "mset (level_audio_files level1) = mset (level_audio_files level2)"
    and "distinct (map sequence_key (level_audio_files level1))"
  shows "generate_level_music load files1 name d = generate_level_music load files2 name d"
proof -
  have "sort_key sequence_key (level_audio_files level1)
          = sort_key sequence_key (level_audio_files level2)"
    using assms(4,5) by (rule sort_key_permutation)
  with assms(1,2,3) show ?thesis
    by (simp add: generate_level_music_def generate_for_level_def)
qed

theorem generate_level_music_order_independent_witness:
  "generate_level_music (\<lambda>n. if n = ''A.WAV'' then Some [1 / 2] else Some [1 / 4])
     (Some [\<lparr>level_filename = ''L.ELV'', level_audio_count = 2,
             level_audio_files =
               [\<lparr>entry_filename = ''B.WAV'', entry_file_type = Some ''letter_rhythm'',
                  entry_sequence_position = Some 1\<rparr>,
                \<lparr>entry_filename = ''A.WAV'', entry_file_type = Some ''letter_rhythm'',
                  entry_sequence_position = Some 0\<rparr>]\<rparr>]) ''L.ELV'' (3 / 44100)
   = generate_level_music (\<lambda>n. if n = ''A.WAV'' then Some [1 / 2] else Some [1 / 4])
     (Some [\<lparr>level_filename = ''L.ELV'', level_audio_count = 2,
             level_audio_files =
               [\<lparr>entry_filename = ''A.WAV'', entry_file_type = Some ''letter_rhythm'',
                  entry_sequence_position = Some 0\<rparr>,
                \<lparr>entry_filename = ''B.WAV'', entry_file_type = Some ''letter_rhythm'',
                  entry_sequence_position = Some 1\<rparr>]\<rparr>]) ''L.ELV'' (3 / 44100)"
proof -
  let ?a = "\<lparr>entry_filename = ''A.WAV'', entry_file_type = Some ''letter_rhythm'',
             entry_sequence_position = Some 0\<rparr>"
  let ?b = "\<lparr>entry_filename = ''B.WAV'', entry_file_type = Some ''letter_rhythm'',
             entry_sequence_position = Some 1\<rparr>"
  let ?l1 = "\<lparr>level_filename = ''L.ELV'', level_audio_count = 2, level_audio_files = [?b, ?a]\<rparr>"
  let ?l2 = "\<lparr>level_filename = ''L.ELV'', level_audio_count = 2, level_audio_files = [?a, ?b]\<rparr>"
  have 1: "get_level_info (Some [?l1]) ''L.ELV'' = Some ?l1"
    and 2: "get_level_info (Some [?l2]) ''L.ELV'' = Some ?l2"
    by (simp_all add: get_level_info_def)
  have 3: "level_audio_count ?l1 = level_audio_count ?l2" by simp
  have 4: "mset (level_audio_files ?l1) = mset (level_audio_files ?l2)" by simp
  have 5: "distinct (map sequence_key (level_audio_files ?l1))"
    by (simp add: sequence_key_def)
  from generate_level_music_order_independent [OF 1 2 3 4 5] show ?thesis .
qed

end
